(* ===== verification/Prelude.thy ===== *)
theory Prelude
  imports Main "HOL-Library.Word" "HOL-Library.Monad_Syntax"
begin

text \<open>
  Shared vocabulary of the development: the machine types of the C sources
  (\<open>size_t\<close> as a 64-bit word, \<open>long\<close> file offsets as \<open>int\<close>), the fact
  collections the component proofs draw on, and generic lemmas on lists,
  options and words that several components use. Every operation of the
  store is modelled with an \<open>option\<close> result: \<open>None\<close> marks a run that
  leaves the defined behaviour of the C code (a read of a block that is not
  in its file, a write past a fixed array, a chain walk that never reaches
  \<open>NULL_OFFSET\<close>), \<open>Some\<close> carries the C return value and the new state.
\<close>

unbundle bit_operations_syntax

type_synonym size_t = "64 word"
type_synonym offset = int
type_synonym float_bits = "32 word"
type_synonym byte = "8 word"

text \<open>Heap addresses of the pointer-based structures.\<close>

type_synonym ptr = nat

text \<open>Constants both hash tables define alike.\<close>

abbreviation MAX_KEY2_LEN :: nat where "MAX_KEY2_LEN \<equiv> 8"
abbreviation INVALID_KEY1 :: size_t where "INVALID_KEY1 \<equiv> -1"

named_theorems store_simps "rewrite rules for reads and writes of the block store"
named_theorems chain_simps "rewrite rules for walks over offset-linked chains"

subsection \<open>Lists\<close>

text \<open>Insertion of one element at a position, the reference behaviour of the
  shifting loops of the slot array.\<close>

definition insert_at :: "nat \<Rightarrow> 'a \<Rightarrow> 'a list \<Rightarrow> 'a list" where
  "insert_at i x xs = take i xs @ x # drop i xs"

definition remove_at :: "nat \<Rightarrow> 'a list \<Rightarrow> 'a list" where
  "remove_at i xs = take i xs @ drop (Suc i) xs"

lemma length_insert_at [simp]: "i \<le> length xs \<Longrightarrow> length (insert_at i x xs) = Suc (length xs)"
  by (simp add: insert_at_def)

lemma length_remove_at [simp]: "i < length xs \<Longrightarrow> length (remove_at i xs) = length xs - 1"
  by (simp add: remove_at_def)

lemma set_insert_at [simp]: "i \<le> length xs \<Longrightarrow> set (insert_at i x xs) = insert x (set xs)"
proof -
  have "set (take i xs) \<union> set (drop i xs) = set xs"
    by (metis append_take_drop_id set_append)
  then show ?thesis by (auto simp: insert_at_def)
qed

lemma nth_insert_at:
  "i \<le> length xs \<Longrightarrow> j < Suc (length xs) \<Longrightarrow>
   insert_at i x xs ! j = (if j < i then xs ! j else if j = i then x else xs ! (j - 1))"
  by (auto simp: insert_at_def nth_append min_def)

lemma map_insert_at: "map f (insert_at i x xs) = insert_at i (f x) (map f xs)"
  by (simp add: insert_at_def take_map drop_map)

lemma map_remove_at: "map f (remove_at i xs) = remove_at i (map f xs)"
  by (simp add: remove_at_def take_map drop_map)

lemma sorted_wrt_take_drop:
  "sorted_wrt R xs \<Longrightarrow> a \<in> set (take i xs) \<Longrightarrow> b \<in> set (drop i xs) \<Longrightarrow> R a b"
  by (metis append_take_drop_id sorted_wrt_append)

lemma sorted_wrt_insert_at:
  assumes "sorted_wrt R xs"
    and "\<forall>y \<in> set (take i xs). R y x" "\<forall>y \<in> set (drop i xs). R x y"
  shows "sorted_wrt R (insert_at i x xs)"
  using assms sorted_wrt_take_drop [OF assms(1)]
  by (auto simp: insert_at_def sorted_wrt_append)

lemma sorted_wrt_remove_at:
  "sorted_wrt R xs \<Longrightarrow> sorted_wrt R (remove_at i xs)"
proof -
  assume s: "sorted_wrt R xs"
  have "set (drop (Suc i) xs) \<subseteq> set (drop i xs)"
    by (simp add: set_drop_subset_set_drop)
  with s sorted_wrt_take_drop [OF s, of _ i] show ?thesis
    by (auto simp: remove_at_def sorted_wrt_append)
qed

lemma distinct_remove_at: "distinct xs \<Longrightarrow> distinct (remove_at i xs)"
proof -
  assume d: "distinct xs"
  then have "set (take i xs) \<inter> set (drop i xs) = {}"
    by (metis append_take_drop_id distinct_append)
  moreover have "set (drop (Suc i) xs) \<subseteq> set (drop i xs)"
    by (simp add: set_drop_subset_set_drop)
  ultimately show ?thesis
    using d by (auto simp: remove_at_def)
qed

lemma set_remove_at_subset: "set (remove_at i xs) \<subseteq> set xs"
  by (auto simp: remove_at_def dest: in_set_takeD in_set_dropD)

lemma remove_at_filter:
  assumes "distinct xs" "i < length xs"
  shows "remove_at i xs = filter (\<lambda>y. y \<noteq> xs ! i) xs"
proof -
  let ?P = "\<lambda>y. y \<noteq> xs ! i"
  have xs: "take i xs @ xs ! i # drop (Suc i) xs = xs" using assms(2) by (rule id_take_nth_drop [symmetric])
  then have "distinct (take i xs @ xs ! i # drop (Suc i) xs)" using assms(1) by simp
  then have "\<forall>y \<in> set (take i xs). ?P y" "\<forall>y \<in> set (drop (Suc i) xs). ?P y" by auto
  then have "filter ?P (take i xs @ xs ! i # drop (Suc i) xs) = remove_at i xs"
    by (simp add: remove_at_def)
  then show ?thesis by (simp only: xs)
qed

lemma map_update_same_key:
  "i < length xs \<Longrightarrow> kf x = kf (xs ! i) \<Longrightarrow> map kf (xs[i := x]) = map kf xs"
  by (auto intro!: nth_equalityI simp: nth_list_update)

lemma length_filter_update:
  "i < length xs \<Longrightarrow> length (filter P (xs[i := x])) =
     length (filter P xs) - (if P (xs ! i) then 1 else 0) + (if P x then 1 else 0)"
proof (induction xs arbitrary: i)
  case Nil
  then show ?case by simp
next
  case (Cons y ys)
  show ?case
  proof (cases i)
    case 0
    then show ?thesis by simp
  next
    case (Suc j)
    with Cons have "length (filter P (ys[j := x])) =
       length (filter P ys) - (if P (ys ! j) then 1 else 0) + (if P x then 1 else 0)" by simp
    moreover have "P (ys ! j) \<Longrightarrow> 0 < length (filter P ys)"
      using Cons.prems Suc by (metis length_pos_if_in_set mem_Collect_eq nth_mem set_filter Suc_less_eq length_Cons)
    ultimately show ?thesis using Suc by auto
  qed
qed

subsection \<open>Words\<close>

text \<open>Values below \<open>256\<close> (one byte) stay below it under \<open>XOR\<close>.\<close>

lemma xor_lt_256:
  fixes x y :: size_t
  assumes "x < 256" "y < 256"
  shows "x XOR y < 256"
proof -
  have "uint x < 2 ^ 8" "uint y < 2 ^ 8" using assms by (simp_all add: word_less_def)
  then have "uint x XOR uint y < 2 ^ 8" using XOR_upper [of "uint x" 8 "uint y"] by simp
  then show ?thesis by (simp add: word_less_def uint_xor)
qed

lemma char_word_lt_256: "(word_of_nat (of_char c) :: size_t) < 256"
proof -
  have "(of_char c :: nat) < 256" by (rule nat_of_char_less_256)
  then have "unat (word_of_nat (of_char c) :: size_t) < 256"
    by (metis le_less_trans mod_less_eq_dividend unat_of_nat)
  then show ?thesis by (simp add: word_less_nat_alt)
qed

subsection \<open>Options\<close>

declare bind_eq_Some_conv [simp]

end
