(* ===== verification/Layout.thy ===== *)
theory Layout
  imports Prelude
begin

text \<open>
  The data model of \<open>src/AaDS/3_/outer_memory/hash_tab_om.c\<close> (lines 24--88):
  the size macros, the enumeration of the five files, and the structures that
  are stored in the files (\<open>Item\<close> in \<open>data.bin\<close>, \<open>Node1\<close> in
  \<open>ks1_nodes.bin\<close>, \<open>KeySpace2\<close> in \<open>ks2.bin\<close>) or snapshotted as a whole
  (\<open>Table\<close> in \<open>table.bin\<close>). Field names follow the C source; where two
  structures share a field name, the field of the second is prefixed.
  The \<open>sizeof\<close> values are those of the x86-64 System V layout, which is
  the layout the files are written in.
\<close>

subsection \<open>Macros\<close>

abbreviation KS1_SIZE :: nat where "KS1_SIZE \<equiv> 512"
abbreviation KS2_SIZE :: nat where "KS2_SIZE \<equiv> 512"
abbreviation NULL_OFFSET :: offset where "NULL_OFFSET \<equiv> -1"

subsection \<open>Files\<close>

datatype FILE_TYPE = TABLE_FILE | DATA_FILE | KS1_NODES_FILE | KS2_FILE | FREELIST_FILE

text \<open>The numeric value of an enumerator, as stored in \<open>FreeBlock.listType\<close>.\<close>

fun file_type_code :: "FILE_TYPE \<Rightarrow> size_t" where
  "file_type_code TABLE_FILE = 0"
| "file_type_code DATA_FILE = 1"
| "file_type_code KS1_NODES_FILE = 2"
| "file_type_code KS2_FILE = 3"
| "file_type_code FREELIST_FILE = 4"

lemma file_type_code_inj [simp]: "(file_type_code a = file_type_code b) = (a = b)"
  by (cases a; cases b) simp_all

subsection \<open>Structures\<close>

record Item =
  num1 :: float_bits
  num2 :: float_bits
  item_note :: string
  item_release :: size_t
  item_key1 :: size_t
  item_key2 :: string

record Node1 =
  release :: size_t
  itemOffset :: offset
  nextNodeOffset :: offset

record KeySpace1 =
  key :: size_t
  nodeOffset :: offset

record KeySpace2 =
  ks2_key :: string
  ks2_itemOffset :: offset
  nextKeySpace2Offset :: offset

text \<open>\<open>Table\<close>: \<open>ks1\<close> and \<open>ks2\<close> are the two fixed arrays, kept as lists of
  length \<open>KS1_SIZE\<close> and \<open>KS2_SIZE\<close>; an index past their end is a write
  outside the structure, which the operations check and report as \<open>None\<close>.\<close>

record Table =
  ks1 :: "KeySpace1 list"
  ks2 :: "offset list"
  msize1 :: nat
  msize2 :: nat
  csize1 :: nat
  csize2 :: nat

subsection \<open>Sizes\<close>

abbreviation sizeof_Item :: size_t where "sizeof_Item \<equiv> 160"
abbreviation sizeof_Node1 :: size_t where "sizeof_Node1 \<equiv> 24"
abbreviation sizeof_KeySpace2 :: size_t where "sizeof_KeySpace2 \<equiv> 24"
abbreviation sizeof_Table :: nat where "sizeof_Table \<equiv> 12320"

end
