(* ===== verification/FreeList.thy ===== *)
theory FreeList
  imports Layout
begin

text \<open>
  The free-list allocator of \<open>hash_tab_om.c\<close> (lines 41--46 and 213--321):
  the singly linked list of \<open>FreeBlock\<close> records is a HOL list, head
  first, so \<open>appendFreeList\<close> is a cons and \<open>findFreeBlock\<close> the
  first-fit search that unlinks the block it returns. \<open>saveFreeList\<close>
  and \<open>loadFreeList\<close> are modelled at the level of the bytes of
  \<open>free_list.bin\<close> (little-endian, as on x86-64), since their formats
  differ: the writer stores \<open>listType\<close> with \<open>sizeof(int)\<close> bytes, the
  reader expects \<open>sizeof(size_t)\<close>.
\<close>

record FreeBlock =
  fb_offset :: offset
  fb_size :: size_t
  listType :: size_t

subsection \<open>Operations\<close>

definition appendFreeList :: "FreeBlock list \<Rightarrow> offset \<Rightarrow> size_t \<Rightarrow> FILE_TYPE \<Rightarrow> FreeBlock list" where
  "appendFreeList l off sz ty =
     \<lparr>fb_offset = off, fb_size = sz, listType = file_type_code ty\<rparr> # l"

text \<open>The loop with its \<open>prev\<close> pointer, written as a recursion that
  rebuilds the prefix it has passed: the result is the offset, or \<open>-1\<close>
  when no block fits, and the list with the block unlinked.\<close>

fun findFreeBlock :: "FreeBlock list \<Rightarrow> size_t \<Rightarrow> FILE_TYPE \<Rightarrow> offset \<times> FreeBlock list" where
  "findFreeBlock [] sz ty = (-1, [])"
| "findFreeBlock (b # bs) sz ty =
     (if sz \<le> fb_size b \<and> listType b = file_type_code ty then (fb_offset b, bs)
      else (let (off, bs') = findFreeBlock bs sz ty in (off, b # bs')))"

definition fits :: "size_t \<Rightarrow> FILE_TYPE \<Rightarrow> FreeBlock \<Rightarrow> bool" where
  "fits sz ty b \<longleftrightarrow> sz \<le> fb_size b \<and> listType b = file_type_code ty"

subsection \<open>The file format\<close>

text \<open>\<open>le_bytes n x\<close>: the \<open>n\<close> low bytes of \<open>x\<close>, least significant first,
  as \<open>fwrite\<close> of an integer object stores them; \<open>le_value\<close> reads them back.\<close>

fun le_bytes :: "nat \<Rightarrow> nat \<Rightarrow> byte list" where
  "le_bytes 0 x = []"
| "le_bytes (Suc n) x = word_of_nat (x mod 256) # le_bytes n (x div 256)"

fun le_value :: "byte list \<Rightarrow> nat" where
  "le_value [] = 0"
| "le_value (b # bs) = unat b + 256 * le_value bs"

text \<open>One record of \<open>saveFreeList\<close> (lines 271--273): 8 bytes of \<open>offset\<close>,
  8 bytes of \<open>size\<close>, and only the first \<open>sizeof(int) = 4\<close> bytes of the
  8-byte \<open>listType\<close>.\<close>

definition encodeFreeBlock :: "FreeBlock \<Rightarrow> byte list" where
  "encodeFreeBlock b =
     le_bytes 8 (unat (word_of_int (fb_offset b) :: 64 word)) @
     le_bytes 8 (unat (fb_size b)) @
     le_bytes 4 (unat (listType b))"

definition saveFreeList :: "FreeBlock list \<Rightarrow> byte list" where
  "saveFreeList l = concat (map encodeFreeBlock l)"

text \<open>The loop of \<open>loadFreeList\<close> (lines 233--257): three \<open>fread\<close>s of
  8 bytes each; the first that finds fewer than 8 bytes ends the loop, so a
  block is produced only when 24 bytes remain.\<close>

function decodeFreeBlocks :: "byte list \<Rightarrow> FreeBlock list" where
  "decodeFreeBlocks bs =
     (if length bs < 24 then []
      else \<lparr>fb_offset = sint (word_of_nat (le_value (take 8 bs)) :: 64 word),
            fb_size = word_of_nat (le_value (take 8 (drop 8 bs))),
            listType = word_of_nat (le_value (take 8 (drop 16 bs)))\<rparr>
           # decodeFreeBlocks (drop 24 bs))"
  by pat_completeness auto
termination
  by (relation "measure length") auto

declare decodeFreeBlocks.simps [simp del]

text \<open>\<open>None\<close> is a missing file; an empty file is an empty list.\<close>

definition loadFreeList :: "byte list option \<Rightarrow> FreeBlock list" where
  "loadFreeList file =
     (case file of None \<Rightarrow> []
      | Some bs \<Rightarrow> if length bs = 0 then [] else decodeFreeBlocks bs)"

subsection \<open>First fit\<close>

text \<open>\<open>findFreeBlock\<close> is first fit: it returns the first block of the
  requested kind that is large enough, and removes exactly that block.\<close>

lemma findFreeBlock_find:
  "findFreeBlock fl sz ty =
     (case List.find (fits sz ty) fl of None \<Rightarrow> (-1, fl) | Some b \<Rightarrow> (fb_offset b, remove1 b fl))"
proof (induction fl)
  case Nil
  then show ?case by simp
next
  case (Cons b bs)
  show ?case
  proof (cases "fits sz ty b")
    case True
    then show ?thesis by (simp add: fits_def)
  next
    case False
    have step: "findFreeBlock (b # bs) sz ty = (let (off, bs') = findFreeBlock bs sz ty in (off, b # bs'))"
      using False unfolding fits_def by (simp only: findFreeBlock.simps if_False)
    have ne: "List.find (fits sz ty) bs = Some c \<Longrightarrow> c \<noteq> b" for c
      using False by (auto simp: find_Some_iff)
    show ?thesis
      using False Cons.IH ne step
      by (auto split: option.splits)
  qed
qed

lemma findFreeBlock_appendFreeList:
  "sz' \<le> sz \<Longrightarrow> findFreeBlock (appendFreeList fl off sz ty) sz' ty = (off, fl)"
  by (simp add: appendFreeList_def)

lemma length_le_bytes [simp]: "length (le_bytes n x) = n"
  by (induction n arbitrary: x) auto

lemma le_value_le_bytes: "le_value (le_bytes n x) = x mod 256 ^ n"
proof (induction n arbitrary: x)
  case 0
  then show ?case by simp
next
  case (Suc n)
  have "unat (word_of_nat (x mod 256) :: byte) = x mod 256"
    by (simp add: unat_of_nat)
  then show ?case
    using Suc.IH [of "x div 256"] by (simp add: mod_mult2_eq)
qed

lemma length_encodeFreeBlock [simp]: "length (encodeFreeBlock b) = 20"
  by (simp add: encodeFreeBlock_def)

lemma length_saveFreeList: "length (saveFreeList l) = 20 * length l"
  by (induction l) (simp_all add: saveFreeList_def)

lemma length_decodeFreeBlocks: "length (decodeFreeBlocks bs) = length bs div 24"
proof (induction bs rule: decodeFreeBlocks.induct)
  case (1 bs)
  show ?case
  proof (cases "length bs < 24")
    case True
    then show ?thesis by (simp add: decodeFreeBlocks.simps)
  next
    case False
    with "1" have "length (decodeFreeBlocks (drop 24 bs)) = (length bs - 24) div 24" by simp
    with False show ?thesis
      by (simp add: decodeFreeBlocks.simps [of bs] le_div_geq)
  qed
qed

text \<open>C8 (round trip of the free-list file). Save followed by load returns \<open>20 n div 24\<close> blocks of the \<open>n\<close>
  saved (20 bytes are written per block, 24 are read): \<open>saveFreeList\<close> and
  \<open>loadFreeList\<close> are not inverse, and a saved list of one block is
  reloaded empty.\<close>

theorem loadFreeList_saveFreeList_length:
  "length (loadFreeList (Some (saveFreeList l))) = (20 * length l) div 24"
  by (simp add: loadFreeList_def length_saveFreeList length_decodeFreeBlocks)

lemma loadFreeList_saveFreeList_single:
  "loadFreeList (Some (saveFreeList [\<lparr>fb_offset = 0, fb_size = 24, listType = 2\<rparr>])) = []"
  by (simp add: loadFreeList_def saveFreeList_def encodeFreeBlock_def decodeFreeBlocks.simps)
end
