(* ===== verification/BlockStore.thy ===== *)
theory BlockStore
  imports FreeList
begin

text \<open>
  The block store of \<open>hash_tab_om.c\<close> (lines 150--209): \<open>readFromFile\<close>,
  \<open>writeToFile\<close> and \<open>deleteFromFile\<close>. Each of \<open>data.bin\<close>,
  \<open>ks1_nodes.bin\<close> and \<open>ks2.bin\<close> holds records of one structure and one
  size, always written whole at the offset the store hands out, so a file is
  modelled as a map from the byte offset of a record to the record
  (\<open>blocks\<close>) together with the file length (\<open>eof\<close>). Deleting never
  erases: the block stays readable and only its range is pushed on the free
  list. The machine state \<open>st\<close> collects what the operations of the program
  read and write: the in-memory \<open>Table\<close>, the three record files and the
  in-memory free list.

  Offset-linked chains (release chains in \<open>ks1_nodes.bin\<close>, bucket chains
  in \<open>ks2.bin\<close>) are described relationally by \<open>chain nx f p as\<close>: the
  offsets \<open>as\<close> lead from \<open>p\<close> to \<open>NULL_OFFSET\<close> following the link
  field \<open>nx\<close> of the records of \<open>f\<close>.
\<close>

record 'a bfile =
  blocks :: "offset \<rightharpoonup> 'a"
  eof :: offset

record st =
  tbl :: Table
  dataF :: "Item bfile"
  ks1F :: "Node1 bfile"
  ks2F :: "KeySpace2 bfile"
  freeList :: "FreeBlock list"

subsection \<open>The three primitives\<close>

text \<open>A read fails when \<open>fseek\<close> fails (negative offset) or when fewer
  bytes than a record remain (no record at the offset).\<close>

definition readFromFile :: "'a bfile \<Rightarrow> offset \<Rightarrow> 'a option" where
  "readFromFile f off = (if off < 0 then None else blocks f off)"

text \<open>A write first asks the free list for a block of the kind and size;
  with none, it appends at the end of the file; otherwise it overwrites the
  reused block (opened \<open>rb+\<close>, which extends the file if the block lies past
  its end). The result is the new file, the new free list and the offset.\<close>

definition writeToFile ::
  "FILE_TYPE \<Rightarrow> size_t \<Rightarrow> 'a \<Rightarrow> 'a bfile \<Rightarrow> FreeBlock list \<Rightarrow> 'a bfile \<times> FreeBlock list \<times> offset" where
  "writeToFile ty sz v f fl =
     (let (off, fl') = findFreeBlock fl sz ty in
      if off = -1
      then (f\<lparr>blocks := (blocks f)(eof f \<mapsto> v), eof := eof f + uint sz\<rparr>, fl', eof f)
      else (f\<lparr>blocks := (blocks f)(off \<mapsto> v), eof := max (eof f) (off + uint sz)\<rparr>, fl', off))"

definition deleteFromFile :: "FILE_TYPE \<Rightarrow> offset \<Rightarrow> size_t \<Rightarrow> FreeBlock list \<Rightarrow> FreeBlock list" where
  "deleteFromFile ty off sz fl = appendFreeList fl off sz ty"

subsection \<open>The calls the program makes\<close>

text \<open>Each call site passes a file kind and the \<open>sizeof\<close> of the structure
  stored in that file; these are the three instances on the state.\<close>

definition rdItem :: "st \<Rightarrow> offset \<Rightarrow> Item option" where
  "rdItem s off = readFromFile (dataF s) off"

definition rdNode :: "st \<Rightarrow> offset \<Rightarrow> Node1 option" where
  "rdNode s off = readFromFile (ks1F s) off"

definition rdKey2 :: "st \<Rightarrow> offset \<Rightarrow> KeySpace2 option" where
  "rdKey2 s off = readFromFile (ks2F s) off"

definition wrItem :: "st \<Rightarrow> Item \<Rightarrow> st \<times> offset" where
  "wrItem s v =
     (let (f, fl, off) = writeToFile DATA_FILE sizeof_Item v (dataF s) (freeList s)
      in (s\<lparr>dataF := f, freeList := fl\<rparr>, off))"

definition wrNode :: "st \<Rightarrow> Node1 \<Rightarrow> st \<times> offset" where
  "wrNode s v =
     (let (f, fl, off) = writeToFile KS1_NODES_FILE sizeof_Node1 v (ks1F s) (freeList s)
      in (s\<lparr>ks1F := f, freeList := fl\<rparr>, off))"

definition wrKey2 :: "st \<Rightarrow> KeySpace2 \<Rightarrow> st \<times> offset" where
  "wrKey2 s v =
     (let (f, fl, off) = writeToFile KS2_FILE sizeof_KeySpace2 v (ks2F s) (freeList s)
      in (s\<lparr>ks2F := f, freeList := fl\<rparr>, off))"

definition delItem :: "st \<Rightarrow> offset \<Rightarrow> st" where
  "delItem s off = s\<lparr>freeList := deleteFromFile DATA_FILE off sizeof_Item (freeList s)\<rparr>"

definition delNode :: "st \<Rightarrow> offset \<Rightarrow> st" where
  "delNode s off = s\<lparr>freeList := deleteFromFile KS1_NODES_FILE off sizeof_Node1 (freeList s)\<rparr>"

definition delKey2 :: "st \<Rightarrow> offset \<Rightarrow> st" where
  "delKey2 s off = s\<lparr>freeList := deleteFromFile KS2_FILE off sizeof_KeySpace2 (freeList s)\<rparr>"

subsection \<open>Chains\<close>

fun chain :: "('a \<Rightarrow> offset) \<Rightarrow> 'a bfile \<Rightarrow> offset \<Rightarrow> offset list \<Rightarrow> bool" where
  "chain nx f p [] = (p = NULL_OFFSET)"
| "chain nx f p (a # as) =
     (p = a \<and> a \<noteq> NULL_OFFSET \<and>
      (case readFromFile f a of None \<Rightarrow> False | Some n \<Rightarrow> chain nx f (nx n) as))"

text \<open>The records along a chain, in chain order.\<close>

definition chain_vals :: "'a bfile \<Rightarrow> offset list \<Rightarrow> 'a list" where
  "chain_vals f as = map (\<lambda>a. the (blocks f a)) as"

subsection \<open>Chains in a file\<close>

declare chain.simps(2) [simp del]

lemma chain_Cons_iff [chain_simps]:
  "chain nx f p (a # as) \<longleftrightarrow>
     p = a \<and> 0 \<le> a \<and> (\<exists>n. blocks f a = Some n \<and> chain nx f (nx n) as)"
  by (auto simp: chain.simps(2) readFromFile_def split: option.splits)

lemma chain_NULL [simp]: "chain nx f NULL_OFFSET as \<longleftrightarrow> as = []"
  by (cases as) (auto simp: chain_Cons_iff)

lemma chain_unique: "chain nx f p as \<Longrightarrow> chain nx f p bs \<Longrightarrow> as = bs"
proof (induction as arbitrary: p bs)
  case Nil
  then show ?case by (cases bs) (auto simp: chain_Cons_iff)
next
  case (Cons a as)
  then show ?case by (cases bs) (auto simp: chain_Cons_iff)
qed

lemma chain_not_in_tail:
  "chain nx f p (a # as) \<Longrightarrow> a \<notin> set as"
proof
  assume c: "chain nx f p (a # as)" and a: "a \<in> set as"
  then obtain n where n: "blocks f a = Some n" and ct: "chain nx f (nx n) as"
    by (auto simp: chain_Cons_iff)
  from a obtain ys zs where as: "as = ys @ a # zs" by (metis split_list)
  have "chain nx f (nx n) zs"
  proof -
    have "\<And>q. chain nx f q (ys @ a # zs) \<Longrightarrow> chain nx f (nx n) zs"
    proof (induction ys)
      case Nil
      then show ?case using n by (auto simp: chain_Cons_iff)
    next
      case (Cons y ys)
      then show ?case by (auto simp: chain_Cons_iff)
    qed
    with ct as show ?thesis by blast
  qed
  with ct have "as = zs" by (rule chain_unique)
  with as show False by simp
qed

lemma chain_distinct: "chain nx f p as \<Longrightarrow> distinct as"
proof (induction as arbitrary: p)
  case Nil
  then show ?case by simp
next
  case (Cons a as)
  then have "a \<notin> set as" by (blast dest: chain_not_in_tail)
  with Cons show ?case by (auto simp: chain_Cons_iff)
qed

lemma chain_upd:
  "a \<notin> set as \<Longrightarrow> chain nx (f\<lparr>blocks := (blocks f)(a \<mapsto> v), eof := e\<rparr>) p as = chain nx f p as"
  by (induction as arbitrary: p) (auto simp: chain_Cons_iff)

lemma chain_eof:
  "chain nx (f\<lparr>eof := e\<rparr>) p as = chain nx f p as"
  by (induction as arbitrary: p) (auto simp: chain_Cons_iff)

lemma writeToFile_reuse [store_simps]:
  "off \<noteq> -1 \<Longrightarrow> sz' \<le> sz \<Longrightarrow>
   writeToFile ty sz' v f (deleteFromFile ty off sz fl) =
     (f\<lparr>blocks := (blocks f)(off \<mapsto> v), eof := max (eof f) (off + uint sz')\<rparr>, fl, off)"
  by (simp add: writeToFile_def deleteFromFile_def findFreeBlock_appendFreeList)

lemma writeToFile_fresh:
  "List.find (fits sz ty) fl = None \<Longrightarrow>
   writeToFile ty sz v f fl =
     (f\<lparr>blocks := (blocks f)(eof f \<mapsto> v), eof := eof f + uint sz\<rparr>, fl, eof f)"
  by (simp add: writeToFile_def findFreeBlock_find)

lemma writeToFile_eof:
  "0 \<le> eof f \<Longrightarrow> writeToFile ty sz v f fl = (f', fl', off) \<Longrightarrow> eof f \<le> eof f' \<and> off \<noteq> -1"
  by (auto simp: writeToFile_def split: prod.splits if_splits)

text \<open>The table lives in memory: the file operations leave it alone.\<close>

lemma tbl_wr [simp]:
  "tbl (fst (wrNode s v)) = tbl s" "tbl (fst (wrItem s w)) = tbl s" "tbl (fst (wrKey2 s u)) = tbl s"
  by (simp_all add: wrNode_def wrItem_def wrKey2_def split_def Let_def)

lemma tbl_del [simp]:
  "tbl (delNode s o1) = tbl s" "tbl (delItem s o1) = tbl s" "tbl (delKey2 s o1) = tbl s"
  by (simp_all add: delNode_def delItem_def delKey2_def)

text \<open>A node block freed and then written again is reused in place.\<close>

lemma wrNode_reuse:
  "c \<noteq> -1 \<Longrightarrow> wrNode (delNode s c) v =
     (s\<lparr>ks1F := (ks1F s)\<lparr>blocks := (blocks (ks1F s))(c \<mapsto> v), eof := max (eof (ks1F s)) (c + 24)\<rparr>\<rparr>, c)"
  by (simp add: wrNode_def delNode_def writeToFile_reuse)

end
