(* ===== verification/SortedArray.thy ===== *)
theory SortedArray
  imports Prelude
begin

text \<open>
  The loops over the sorted slot array that both hash tables share
  (\<open>hash_tab_om.c\<close> and \<open>hash_tab_im.c\<close> contain them verbatim): binary
  search, the linear search for the insertion point, and the two shifting
  loops. They are stated over a list of slots and the projection \<open>kf\<close>
  that reads the key of a slot, so that each table instantiates them with
  its own \<open>KeySpace1\<close> record. The lemmas relate them to the reference
  operations \<open>insert_at\<close> and \<open>remove_at\<close> and to sortedness.
\<close>

subsection \<open>The loops\<close>

text \<open>The binary-search loop, with the \<open>size_t\<close> guard \<open>middle == 0\<close>;
  \<open>None\<close> is \<open>INVALID_IDX\<close>.\<close>

function bsearch :: "('a \<Rightarrow> size_t) \<Rightarrow> 'a list \<Rightarrow> size_t \<Rightarrow> nat \<Rightarrow> nat \<Rightarrow> nat option" where
  "bsearch kf ks k start end =
     (if start \<le> end then
        (let middle = start + (end - start) div 2; currKey = kf (ks ! middle) in
         if currKey = k then Some middle
         else if k < currKey then
           (if middle = 0 then None else bsearch kf ks k start (middle - 1))
         else bsearch kf ks k (middle + 1) end)
      else None)"
  by pat_completeness auto
termination
  by (relation "measure (\<lambda>(kf, ks, k, start, end). Suc end - start)") auto

declare bsearch.simps [simp del]

text \<open>The first index below \<open>csize1\<close> whose key is greater, else \<open>csize1\<close>.\<close>

function find_insert_idx :: "('a \<Rightarrow> size_t) \<Rightarrow> 'a list \<Rightarrow> size_t \<Rightarrow> nat \<Rightarrow> nat \<Rightarrow> nat" where
  "find_insert_idx kf ks k n i =
     (if i < n then (if k < kf (ks ! i) then i else find_insert_idx kf ks k n (Suc i)) else n)"
  by pat_completeness auto
termination
  by (relation "measure (\<lambda>(kf, ks, k, n, i). n - i)") auto

text \<open>\<open>for (i = csize1; i > insertIdx; i--) ks1[i] = ks1[i - 1]\<close>.\<close>

function shift_up :: "'a list \<Rightarrow> nat \<Rightarrow> nat \<Rightarrow> 'a list" where
  "shift_up ks i lo = (if lo < i then shift_up (ks[i := ks ! (i - 1)]) (i - 1) lo else ks)"
  by pat_completeness auto
termination
  by (relation "measure (\<lambda>(ks, i, lo). i)") auto

declare find_insert_idx.simps [simp del] shift_up.simps [simp del]

text \<open>\<open>for (i = idxToDelete; i < csize1 - 1; i++) ks1[i] = ks1[i + 1]\<close>.\<close>

function shift_down :: "'a list \<Rightarrow> nat \<Rightarrow> nat \<Rightarrow> 'a list" where
  "shift_down ks i n = (if i < n then shift_down (ks[i := ks ! Suc i]) (Suc i) n else ks)"
  by pat_completeness auto
termination
  by (relation "measure (\<lambda>(ks, i, n). n - i)") auto

declare shift_down.simps [simp del]

subsection \<open>Binary search\<close>

lemma bsearch_step:
  "bsearch kf ks k lo hi =
     (if lo \<le> hi then
        (if kf (ks ! (lo + (hi - lo) div 2)) = k then Some (lo + (hi - lo) div 2)
         else if k < kf (ks ! (lo + (hi - lo) div 2)) then
           (if lo + (hi - lo) div 2 = 0 then None else bsearch kf ks k lo (lo + (hi - lo) div 2 - 1))
         else bsearch kf ks k (lo + (hi - lo) div 2 + 1) hi)
      else None)"
  by (subst bsearch.simps) (simp add: Let_def)

lemma bsearch_Some:
  "bsearch kf ks k lo hi = Some i \<Longrightarrow> lo \<le> i \<and> i \<le> hi \<and> kf (ks ! i) = k"
proof (induction kf ks k lo hi rule: bsearch.induct)
  case (1 kf ks k lo hi)
  define m where "m = lo + (hi - lo) div 2"
  from "1.prems" have le: "lo \<le> hi" by (subst (asm) bsearch_step) (simp split: if_splits)
  then have mb: "lo \<le> m" "m \<le> hi" by (auto simp: m_def)
  consider (eq) "kf (ks ! m) = k" | (lt) "kf (ks ! m) \<noteq> k" "k < kf (ks ! m)"
    | (gt) "kf (ks ! m) \<noteq> k" "\<not> k < kf (ks ! m)" by blast
  then show ?case
  proof cases
    case eq
    with "1.prems" le mb show ?thesis by (subst (asm) bsearch_step) (simp add: m_def [symmetric])
  next
    case lt
    with "1.prems" le have "m \<noteq> 0" "bsearch kf ks k lo (m - 1) = Some i"
      by (subst (asm) bsearch_step; simp add: m_def [symmetric] split: if_splits)+
    with "1.IH"(1) [OF le refl refl] lt mb show ?thesis by (simp add: m_def, linarith)
  next
    case gt
    with "1.prems" le have "bsearch kf ks k (m + 1) hi = Some i"
      by (subst (asm) bsearch_step) (simp add: m_def [symmetric])
    with "1.IH"(2) [OF le refl refl] gt mb show ?thesis by (simp add: m_def)
  qed
qed

lemma sorted_key_less:
  "sorted_wrt (<) (map kf (take n ks)) \<Longrightarrow> a < b \<Longrightarrow> b < n \<Longrightarrow> n \<le> length ks \<Longrightarrow>
   kf (ks ! a) < kf (ks ! b)"
proof -
  assume s: "sorted_wrt (<) (map kf (take n ks))" and ab: "a < b" "b < n" "n \<le> length ks"
  have "map kf (take n ks) ! a < map kf (take n ks) ! b"
    using sorted_wrt_nth_less [OF s ab(1)] ab by simp
  with ab show ?thesis by simp
qed

lemma bsearch_complete:
  "sorted_wrt (<) (map kf (take n ks)) \<Longrightarrow> n \<le> length ks \<Longrightarrow> hi < n \<Longrightarrow> lo \<le> i \<Longrightarrow>
   i \<le> hi \<Longrightarrow> kf (ks ! i) = k \<Longrightarrow> bsearch kf ks k lo hi = Some i"
proof (induction kf ks k lo hi rule: bsearch.induct)
  case (1 kf ks k lo hi)
  define m where "m = lo + (hi - lo) div 2"
  have le: "lo \<le> hi" and mb: "lo \<le> m" "m \<le> hi"
    using "1.prems" by (auto simp: m_def)
  have ml: "m < n" "i < n" using "1.prems" mb by auto
  have less_m: "i < m \<Longrightarrow> k < kf (ks ! m)"
    using sorted_key_less [OF "1.prems"(1)] ml "1.prems"(2,6) by blast
  have m_less: "m < i \<Longrightarrow> kf (ks ! m) < k"
    using sorted_key_less [OF "1.prems"(1)] ml "1.prems"(2,6) by blast
  consider (eq) "m = i" | (lt) "i < m" | (gt) "m < i" by arith
  then show ?case
  proof cases
    case eq
    with "1.prems"(6) le show ?thesis by (subst bsearch_step) (simp add: m_def [symmetric])
  next
    case lt
    then have ne: "kf (ks ! m) \<noteq> k" "k < kf (ks ! m)" "m \<noteq> 0"
      using less_m by auto
    have "bsearch kf ks k lo (m - 1) = Some i"
      using "1.IH"(1) [OF le refl refl] ne "1.prems" lt by (simp add: m_def)
    with ne le show ?thesis by (subst bsearch_step) (simp add: m_def [symmetric])
  next
    case gt
    then have ne: "kf (ks ! m) \<noteq> k" "\<not> k < kf (ks ! m)"
      using m_less by auto
    have "bsearch kf ks k (m + 1) hi = Some i"
      using "1.IH"(2) [OF le refl refl] ne "1.prems" gt by (simp add: m_def)
    with ne le show ?thesis by (subst bsearch_step) (simp add: m_def [symmetric])
  qed
qed

subsection \<open>The shifting loops\<close>

lemma find_insert_idx_props:
  "i \<le> n \<Longrightarrow> i \<le> find_insert_idx kf ks k n i \<and> find_insert_idx kf ks k n i \<le> n \<and>
     (\<forall>j. i \<le> j \<and> j < find_insert_idx kf ks k n i \<longrightarrow> \<not> k < kf (ks ! j)) \<and>
     (find_insert_idx kf ks k n i < n \<longrightarrow> k < kf (ks ! find_insert_idx kf ks k n i))"
proof (induction kf ks k n i rule: find_insert_idx.induct)
  case (1 kf ks k n i)
  show ?case
  proof (cases "i < n \<and> \<not> k < kf (ks ! i)")
    case True
    with "1.IH" have IH: "Suc i \<le> find_insert_idx kf ks k n (Suc i) \<and> find_insert_idx kf ks k n (Suc i) \<le> n \<and>
     (\<forall>j. Suc i \<le> j \<and> j < find_insert_idx kf ks k n (Suc i) \<longrightarrow> \<not> k < kf (ks ! j)) \<and>
     (find_insert_idx kf ks k n (Suc i) < n \<longrightarrow> k < kf (ks ! find_insert_idx kf ks k n (Suc i)))"
      by simp
    have eq: "find_insert_idx kf ks k n i = find_insert_idx kf ks k n (Suc i)"
      using True by (subst find_insert_idx.simps) simp
    show ?thesis
      unfolding eq using IH True by (metis Suc_leD le_antisym not_less_eq_eq)
  next
    case False
    with "1.prems" show ?thesis by (subst (1 2 3 4 5) find_insert_idx.simps) auto
  qed
qed

lemma nth_shift_up:
  "i < length ks \<Longrightarrow> lo \<le> i \<Longrightarrow> length (shift_up ks i lo) = length ks \<and>
   (\<forall>j < length ks. shift_up ks i lo ! j = (if j \<le> lo \<or> i < j then ks ! j else ks ! (j - 1)))"
proof (induction ks i lo rule: shift_up.induct)
  case (1 ks i lo)
  show ?case
  proof (cases "lo < i")
    case True
    let ?ks' = "ks[i := ks ! (i - 1)]"
    have IH: "length (shift_up ?ks' (i - 1) lo) = length ks \<and>
      (\<forall>j < length ks. shift_up ?ks' (i - 1) lo ! j = (if j \<le> lo \<or> i - 1 < j then ?ks' ! j else ?ks' ! (j - 1)))"
      using "1.IH" [OF True] "1.prems" True by simp
    have eq: "shift_up ks i lo = shift_up ?ks' (i - 1) lo"
      using True by (subst shift_up.simps) simp
    show ?thesis
      unfolding eq using IH True "1.prems" by (auto simp: nth_list_update)
  next
    case False
    then have "shift_up ks i lo = ks" by (subst shift_up.simps) simp
    with "1.prems" False show ?thesis by auto
  qed
qed

lemma take_shift_up_insert_at:
  assumes "n < length ks" "lo \<le> n"
  shows "take (Suc n) ((shift_up ks n lo)[lo := x]) = insert_at lo x (take n ks)"
proof (rule nth_equalityI)
  show "length (take (Suc n) ((shift_up ks n lo)[lo := x])) = length (insert_at lo x (take n ks))"
    using assms nth_shift_up [OF assms] by simp
next
  fix j assume "j < length (take (Suc n) ((shift_up ks n lo)[lo := x]))"
  then have j: "j < Suc n" "j < length ks" using assms nth_shift_up [OF assms] by auto
  show "take (Suc n) ((shift_up ks n lo)[lo := x]) ! j = insert_at lo x (take n ks) ! j"
    using assms j nth_shift_up [OF assms] by (auto simp: nth_insert_at nth_list_update)
qed

lemma nth_shift_down:
  "n < length ks \<Longrightarrow> length (shift_down ks i n) = length ks \<and>
   (\<forall>j < length ks. shift_down ks i n ! j = (if i \<le> j \<and> j < n then ks ! Suc j else ks ! j))"
proof (induction ks i n rule: shift_down.induct)
  case (1 ks i n)
  show ?case
  proof (cases "i < n")
    case True
    let ?ks' = "ks[i := ks ! Suc i]"
    have IH: "length (shift_down ?ks' (Suc i) n) = length ks \<and>
      (\<forall>j < length ks. shift_down ?ks' (Suc i) n ! j = (if Suc i \<le> j \<and> j < n then ?ks' ! Suc j else ?ks' ! j))"
      using "1.IH" [OF True] "1.prems" by simp
    have eq: "shift_down ks i n = shift_down ?ks' (Suc i) n"
      using True by (subst shift_down.simps) simp
    show ?thesis
      unfolding eq using IH True "1.prems"
      by (auto simp: nth_list_update) (metis Suc_leI le_neq_implies_less)
  next
    case False
    then have "shift_down ks i n = ks" by (subst shift_down.simps) simp
    with "1.prems" False show ?thesis by auto
  qed
qed

lemma take_shift_down_remove_at:
  assumes "n < length ks" "i \<le> n"
  shows "take n (shift_down ks i n) = remove_at i (take (Suc n) ks)"
proof (rule nth_equalityI)
  show "length (take n (shift_down ks i n)) = length (remove_at i (take (Suc n) ks))"
  proof -
    have "Suc n \<le> length ks" using assms by simp
    then show ?thesis using assms(2) nth_shift_down [OF assms(1)] by (simp add: remove_at_def)
  qed
next
  fix j assume "j < length (take n (shift_down ks i n))"
  then have j: "j < n" using assms nth_shift_down [OF assms(1)] by auto
  show "take n (shift_down ks i n) ! j = remove_at i (take (Suc n) ks) ! j"
    using assms j nth_shift_down [OF assms(1)] by (auto simp: remove_at_def nth_append min_def)
qed

subsection \<open>Sorted insertion and removal of a slot\<close>

text \<open>The insertion step shared by both tables: the first \<open>n\<close> slots
  sorted and without the key, the slot written at the index the linear
  search finds after the shift. The keys of the first \<open>n + 1\<close> slots are
  then the old keys with the new one inserted in order.\<close>

lemma insert_slot:
  fixes kf :: "'a \<Rightarrow> size_t"
  assumes st: "sorted_wrt (<) (map kf (take n ks))" and n: "n < length ks"
    and notin: "k \<notin> set (map kf (take n ks))" and kx: "kf x = k"
  defines "idx \<equiv> find_insert_idx kf ks k n 0"
  shows "idx \<le> n \<and> length ((shift_up ks n idx)[idx := x]) = length ks \<and>
         map kf (take (Suc n) ((shift_up ks n idx)[idx := x])) = insert_at idx k (map kf (take n ks)) \<and>
         sorted_wrt (<) (map kf (take (Suc n) ((shift_up ks n idx)[idx := x])))"
proof -
  let ?keys = "map kf (take n ks)"
  have ip: "idx \<le> n \<and> (\<forall>j. j < idx \<longrightarrow> \<not> k < kf (ks ! j)) \<and> (idx < n \<longrightarrow> k < kf (ks ! idx))"
    using find_insert_idx_props [of 0 n kf ks k] by (simp add: idx_def)
  have la: "length (shift_up ks n idx) = length ks" using nth_shift_up [OF n] ip by simp
  have keys: "map kf (take (Suc n) ((shift_up ks n idx)[idx := x])) = insert_at idx k ?keys"
    using take_shift_up_insert_at [OF n, of idx x] ip kx by (simp add: map_insert_at take_map)
  have below: "\<forall>y \<in> set (take idx ?keys). y < k"
  proof
    fix y assume "y \<in> set (take idx ?keys)"
    then obtain j where j: "j < idx" "j < n" "y = kf (ks ! j)"
      using ip n by (auto simp: in_set_conv_nth)
    have "take n ks ! j \<in> set (take n ks)" using j n by (intro nth_mem) simp
    then have "y \<noteq> k" using notin j by auto
    with ip j show "y < k" by auto
  qed
  have above: "\<forall>y \<in> set (drop idx ?keys). k < y"
  proof
    fix y assume y: "y \<in> set (drop idx ?keys)"
    then have "drop idx ?keys \<noteq> []" by auto
    then have lt: "idx < n" using n by simp
    then have "k < kf (ks ! idx)" using ip by simp
    moreover have "kf (ks ! idx) \<le> y"
    proof -
      have "hd (drop idx ?keys) = kf (ks ! idx)" using lt n by (simp add: hd_drop_conv_nth)
      moreover have "sorted_wrt (<) (drop idx ?keys)" using st by (rule sorted_wrt_drop)
      ultimately show ?thesis using y by (cases "drop idx ?keys") auto
    qed
    ultimately show "k < y" by simp
  qed
  have "sorted_wrt (<) (insert_at idx k ?keys)" using st below above by (rule sorted_wrt_insert_at)
  with keys ip la show ?thesis by simp
qed

text \<open>The removal step: the slot at \<open>i < n\<close> removed by the compacting
  loop; the keys of the first \<open>n - 1\<close> slots are the old ones without it.\<close>

lemma remove_slot:
  fixes kf :: "'a \<Rightarrow> size_t"
  assumes st: "sorted_wrt (<) (map kf (take n ks))" and n: "n \<le> length ks" and i: "i < n"
  shows "length (shift_down ks i (n - 1)) = length ks \<and>
         map kf (take (n - 1) (shift_down ks i (n - 1))) = remove_at i (map kf (take n ks)) \<and>
         sorted_wrt (<) (map kf (take (n - 1) (shift_down ks i (n - 1))))"
proof -
  have n': "n - 1 < length ks" "i \<le> n - 1" using n i by auto
  have keys: "map kf (take (n - 1) (shift_down ks i (n - 1))) = remove_at i (map kf (take n ks))"
    using take_shift_down_remove_at [OF n'] i by (simp add: map_remove_at take_map)
  moreover have "length (shift_down ks i (n - 1)) = length ks" using nth_shift_down [OF n'(1)] by simp
  moreover have "sorted_wrt (<) (remove_at i (map kf (take n ks)))" using st by (rule sorted_wrt_remove_at)
  ultimately show ?thesis by simp
qed

subsection \<open>Binary search over a sorted prefix\<close>

text \<open>The search as both \<open>findKeyIdxKs1\<close> call it: on the first \<open>n\<close>
  slots, none when \<open>n = 0\<close>.\<close>

lemma bsearch_prefix_Some:
  "(if n = 0 then None else bsearch kf ks k 0 (n - 1)) = Some i \<Longrightarrow> i < n \<and> kf (ks ! i) = k"
  by (auto split: if_splits dest!: bsearch_Some)

lemma bsearch_prefix_complete:
  "sorted_wrt (<) (map kf (take n ks)) \<Longrightarrow> n \<le> length ks \<Longrightarrow> i < n \<Longrightarrow> kf (ks ! i) = k \<Longrightarrow>
   (if n = 0 then None else bsearch kf ks k 0 (n - 1)) = Some i"
  by (auto intro: bsearch_complete)

lemma in_map_take:
  "n \<le> length ks \<Longrightarrow> (k \<in> set (map kf (take n ks))) = (\<exists>i < n. kf (ks ! i) = k)"
proof -
  assume n: "n \<le> length ks"
  have "length (map kf (take n ks)) = n" "\<forall>i < n. map kf (take n ks) ! i = kf (ks ! i)"
    using n by auto
  then show ?thesis by (metis in_set_conv_nth)
qed

lemma bsearch_prefix_None:
  assumes st: "sorted_wrt (<) (map kf (take n ks))" and n: "n \<le> length ks"
  shows "((if n = 0 then None else bsearch kf ks k 0 (n - 1)) = None) = (k \<notin> set (map kf (take n ks)))"
proof (cases "if n = 0 then None else bsearch kf ks k 0 (n - 1)")
  case None
  have "\<not> (\<exists>i < n. kf (ks ! i) = k)"
  proof
    assume "\<exists>i < n. kf (ks ! i) = k"
    then obtain i where "i < n" "kf (ks ! i) = k" by blast
    from bsearch_prefix_complete [OF st n this] None show False by simp
  qed
  with None show ?thesis by (simp only: in_map_take [OF n]) simp
next
  case (Some i)
  then have "\<exists>i < n. kf (ks ! i) = k" using bsearch_prefix_Some by blast
  with Some show ?thesis by (simp only: in_map_take [OF n]) simp
qed

end
