(* ===== verification/Ks1.thy ===== *)
theory Ks1
  imports BlockStore SortedArray
begin

text \<open>
  The primary index KS1 of \<open>hash_tab_om.c\<close> (lines 325--467): the sorted
  slot array \<open>Table.ks1\<close> of its first \<open>csize1\<close> entries, each the head of
  a release chain of \<open>Node1\<close> records in \<open>ks1_nodes.bin\<close>.
  \<^item> \<open>bsearch\<close> is the binary-search loop (shared verbatim by
    \<open>findKeyIdxKs1\<close> and \<open>findItemByKey1\<close>), with the \<open>size_t\<close> guard
    \<open>middle == 0\<close>; \<open>None\<close> is \<open>INVALID_IDX\<close>;
  \<^item> \<open>insertKs1\<close> appends a release to the chain of an existing key or
    inserts a new slot by the two loops \<open>find_insert_idx\<close> and
    \<open>shift_up\<close>, then rewrites the record with its release number;
  \<^item> \<open>deleteKeyKs1\<close> frees a whole chain and compacts the array
    (\<open>shift_down\<close>), or removes the last release.
  The chain walks are \<open>partial_function (option)\<close>: a walk over a cyclic
  chain does not return.
\<close>

subsection \<open>Search\<close>

definition findKeyIdxKs1 :: "Table \<Rightarrow> size_t \<Rightarrow> nat option" where
  "findKeyIdxKs1 t key1 =
     (if csize1 t = 0 then None else bsearch key (ks1 t) key1 0 (csize1 t - 1))"

subsection \<open>Insertion\<close>

text \<open>\<open>while (curr.nextNodeOffset != NULL_OFFSET)\<close>: the offset and the
  record of the last node of a chain.\<close>

partial_function (option) ks1_tail :: "Node1 bfile \<Rightarrow> offset \<Rightarrow> Node1 \<Rightarrow> (offset \<times> Node1) option" where
  "ks1_tail f lastOffset currN =
     (if nextNodeOffset currN = NULL_OFFSET then Some (lastOffset, currN)
      else do {
        n \<leftarrow> readFromFile f (nextNodeOffset currN);
        ks1_tail f (nextNodeOffset currN) n
      })"

declare ks1_tail.simps [code]

text \<open>The new-key branch writes \<open>ks1[csize1]\<close>; with \<open>csize1 = KS1_SIZE\<close>
  that element lies past the array (the C code does not check), and the
  model stops there with \<open>None\<close>. The rewrite of the record (lines 402--412)
  deletes and rewrites it; the warning on a moved record has no effect.\<close>

definition insertKs1 :: "st \<Rightarrow> size_t \<Rightarrow> offset \<Rightarrow> (int \<times> st) option" where
  "insertKs1 s key1 itemOff =
     (let newNode = \<lparr>release = 0, itemOffset = itemOff, nextNodeOffset = NULL_OFFSET\<rparr> in
      do {
        (rel, s1) \<leftarrow>
          (case findKeyIdxKs1 (tbl s) key1 of
            Some foundIdx \<Rightarrow> do {
              let firstNode = nodeOffset (ks1 (tbl s) ! foundIdx);
              firstN \<leftarrow> rdNode s firstNode;
              (lastOffset, currN) \<leftarrow> ks1_tail (ks1F s) firstNode firstN;
              let newNode = newNode\<lparr>release := release currN + 1\<rparr>;
              let (sa, newNodeOffset) = wrNode s newNode;
              let sb = delNode sa lastOffset;
              let (sc, _) = wrNode sb (currN\<lparr>nextNodeOffset := newNodeOffset\<rparr>);
              Some (release newNode, sc)
            }
          | None \<Rightarrow>
              (let t = tbl s in
               if length (ks1 t) \<le> csize1 t then None
               else
                 (let insertIdx = find_insert_idx key (ks1 t) key1 (csize1 t) 0;
                      a = shift_up (ks1 t) (csize1 t) insertIdx;
                      a = a[insertIdx := (a ! insertIdx)\<lparr>key := key1\<rparr>];
                      sa = s\<lparr>tbl := t\<lparr>ks1 := a, csize1 := Suc (csize1 t)\<rparr>\<rparr>;
                      (sb, newNodeOffset) = wrNode sa newNode;
                      t' = tbl sb;
                      a' = ks1 t'
                  in Some (release newNode,
                      sb\<lparr>tbl := t'\<lparr>ks1 := a'[insertIdx := (a' ! insertIdx)\<lparr>nodeOffset := newNodeOffset\<rparr>]\<rparr>\<rparr>))));
        item \<leftarrow> rdItem s1 itemOff;
        let s2 = delItem s1 itemOff;
        let (s3, _) = wrItem s2 (item\<lparr>item_release := rel\<rparr>);
        Some (0, s3)
      })"

subsection \<open>Deletion\<close>

text \<open>\<open>while (currOffset != NULL_OFFSET)\<close> of the all-releases branch:
  every node of the chain is read and its block freed.\<close>

partial_function (option) freeChainKs1 :: "st \<Rightarrow> offset \<Rightarrow> st option" where
  "freeChainKs1 s currOffset =
     (if currOffset = NULL_OFFSET then Some s
      else do {
        n \<leftarrow> rdNode s currOffset;
        freeChainKs1 (delNode s currOffset) (nextNodeOffset n)
      })"

declare freeChainKs1.simps [code]

text \<open>The loop of the last-release branch: the offsets of the last node and
  of the one before it.\<close>

partial_function (option) ks1_last2 :: "Node1 bfile \<Rightarrow> offset \<Rightarrow> offset \<Rightarrow> Node1 \<Rightarrow> (offset \<times> offset) option" where
  "ks1_last2 f prevOffset currOffset n =
     (if nextNodeOffset n = NULL_OFFSET then Some (prevOffset, currOffset)
      else do {
        n' \<leftarrow> readFromFile f (nextNodeOffset n);
        ks1_last2 f currOffset (nextNodeOffset n) n'
      })"

declare ks1_last2.simps [code]

text \<open>The last-release branch tests \<open>!nodeToDelete.nextNodeOffset\<close>, that
  is \<open>nextNodeOffset = 0\<close>, for "one release"; the model keeps that test.\<close>

function deleteKeyKs1 :: "st \<Rightarrow> size_t \<Rightarrow> bool \<Rightarrow> (int \<times> st) option" where
  "deleteKeyKs1 s key1 allReleases =
     (case findKeyIdxKs1 (tbl s) key1 of
       None \<Rightarrow> Some (-1, s)
     | Some idxToDelete \<Rightarrow>
         (let currOffset = nodeOffset (ks1 (tbl s) ! idxToDelete) in
          if allReleases then do {
            s1 \<leftarrow> freeChainKs1 s currOffset;
            let t = tbl s1;
            Some (0, s1\<lparr>tbl := t\<lparr>ks1 := shift_down (ks1 t) idxToDelete (csize1 t - 1),
                                   csize1 := csize1 t - 1\<rparr>\<rparr>)
          }
          else do {
            nodeToDelete \<leftarrow> rdNode s currOffset;
            if nextNodeOffset nodeToDelete = 0 then deleteKeyKs1 s key1 True
            else do {
              (prevOffset, lastOffset) \<leftarrow> ks1_last2 (ks1F s) currOffset currOffset nodeToDelete;
              let s1 = delNode s lastOffset;
              lastNode \<leftarrow> rdNode s1 prevOffset;
              let s2 = delNode s1 prevOffset;
              let (s3, _) = wrNode s2 (lastNode\<lparr>nextNodeOffset := NULL_OFFSET\<rparr>);
              Some (0, s3)
            }
          }))"
  by pat_completeness auto
termination
  by (relation "measure (\<lambda>(s, k, b). if b then 0 else 1)") auto

declare deleteKeyKs1.simps [simp del]

subsection \<open>The KS1 invariant\<close>

text \<open>The keys of the occupied slots, the invariant that they are strictly
  increasing in an array of \<open>KS1_SIZE\<close> slots, and the frame of an
  operation that leaves the KS1 part of the table alone.\<close>

definition ks1_keys :: "Table \<Rightarrow> size_t list" where
  "ks1_keys t = map key (take (csize1 t) (ks1 t))"

definition ks1_inv :: "Table \<Rightarrow> bool" where
  "ks1_inv t \<longleftrightarrow> length (ks1 t) = KS1_SIZE \<and> csize1 t \<le> length (ks1 t) \<and> sorted_wrt (<) (ks1_keys t)"

definition ks1_same :: "st \<Rightarrow> st \<Rightarrow> bool" where
  "ks1_same s s' \<longleftrightarrow> ks1_keys (tbl s') = ks1_keys (tbl s) \<and>
     length (ks1 (tbl s')) = length (ks1 (tbl s)) \<and> csize1 (tbl s') = csize1 (tbl s)"

subsection \<open>Search against the invariant\<close>


lemma in_ks1_keys:
  assumes "csize1 t \<le> length (ks1 t)"
  shows "(k \<in> set (ks1_keys t)) = (\<exists>i < csize1 t. key (ks1 t ! i) = k)"
proof -
  have "length (ks1_keys t) = csize1 t" "\<forall>i < csize1 t. ks1_keys t ! i = key (ks1 t ! i)"
    using assms by (auto simp: ks1_keys_def min_def)
  then show ?thesis by (metis in_set_conv_nth)
qed

lemma findKeyIdxKs1_Some:
  "findKeyIdxKs1 t k = Some i \<Longrightarrow> i < csize1 t \<and> key (ks1 t ! i) = k"
  by (auto simp: findKeyIdxKs1_def split: if_splits dest!: bsearch_Some)

lemma findKeyIdxKs1_complete:
  "sorted_wrt (<) (ks1_keys t) \<Longrightarrow> csize1 t \<le> length (ks1 t) \<Longrightarrow> i < csize1 t \<Longrightarrow>
   key (ks1 t ! i) = k \<Longrightarrow> findKeyIdxKs1 t k = Some i"
  unfolding findKeyIdxKs1_def ks1_keys_def
  by (auto intro: bsearch_complete)

lemma findKeyIdxKs1_None:
  "sorted_wrt (<) (ks1_keys t) \<Longrightarrow> csize1 t \<le> length (ks1 t) \<Longrightarrow>
   (findKeyIdxKs1 t k = None) = (k \<notin> set (ks1_keys t))"
proof -
  assume s: "sorted_wrt (<) (ks1_keys t)" and n: "csize1 t \<le> length (ks1 t)"
  have "k \<in> set (ks1_keys t) \<longleftrightarrow> (\<exists>i < csize1 t. key (ks1 t ! i) = k)"
    using n by (rule in_ks1_keys)
  then show ?thesis
    using findKeyIdxKs1_Some findKeyIdxKs1_complete [OF s n]
    by (metis not_None_eq)
qed

subsection \<open>Insertion keeps the invariant\<close>

lemma insertKs1_found:
  "findKeyIdxKs1 (tbl s) k = Some i \<Longrightarrow> insertKs1 s k off = Some (r, s') \<Longrightarrow> tbl s' = tbl s"
  by (auto simp: insertKs1_def Let_def split_def split: option.splits if_splits)

lemma insertKs1_new:
  assumes "findKeyIdxKs1 (tbl s) k = None" "insertKs1 s k off = Some (r, s')"
  defines "t \<equiv> tbl s"
  defines "idx \<equiv> find_insert_idx key (ks1 t) k (csize1 t) 0"
  defines "a \<equiv> shift_up (ks1 t) (csize1 t) idx"
  shows "csize1 t < length (ks1 t) \<and>
    (\<exists>o1. ks1 (tbl s') = (a[idx := (a ! idx)\<lparr>key := k\<rparr>])[idx := ((a[idx := (a ! idx)\<lparr>key := k\<rparr>]) ! idx)\<lparr>nodeOffset := o1\<rparr>]) \<and>
    csize1 (tbl s') = Suc (csize1 t) \<and> ks2 (tbl s') = ks2 t \<and> csize2 (tbl s') = csize2 t \<and>
    msize1 (tbl s') = msize1 t \<and> msize2 (tbl s') = msize2 t"
  using assms(1,2) unfolding t_def idx_def a_def
  by (auto simp: insertKs1_def Let_def split_def split: if_splits)

lemma insertKs1_ks1_inv:
  assumes inv: "ks1_inv (tbl s)" and r: "insertKs1 s k off = Some (r, s')"
  shows "ks1_inv (tbl s') \<and> set (ks1_keys (tbl s')) = insert k (set (ks1_keys (tbl s)))"
proof (cases "findKeyIdxKs1 (tbl s) k")
  case (Some i)
  then have "tbl s' = tbl s" using r by (rule insertKs1_found)
  moreover have "k \<in> set (ks1_keys (tbl s))"
    using findKeyIdxKs1_Some [OF Some] inv in_ks1_keys [of "tbl s" k] by (auto simp: ks1_inv_def)
  ultimately show ?thesis using inv by auto
next
  case None
  define t where "t = tbl s"
  define n where "n = csize1 t"
  define idx where "idx = find_insert_idx key (ks1 t) k n 0"
  define a where "a = shift_up (ks1 t) n idx"
  from insertKs1_new [OF None r] obtain o1 where
      n: "n < length (ks1 t)" and
      k1: "ks1 (tbl s') = (a[idx := (a ! idx)\<lparr>key := k\<rparr>])[idx := ((a[idx := (a ! idx)\<lparr>key := k\<rparr>]) ! idx)\<lparr>nodeOffset := o1\<rparr>]"
      and c1: "csize1 (tbl s') = Suc n"
    unfolding t_def n_def idx_def a_def by blast
  have notin: "k \<notin> set (map key (take n (ks1 t)))"
    using None inv findKeyIdxKs1_None by (simp add: ks1_inv_def ks1_keys_def t_def n_def)
  have st: "sorted_wrt (<) (map key (take n (ks1 t)))"
    using inv by (simp add: ks1_inv_def ks1_keys_def t_def n_def)
  have kx: "key ((a ! idx)\<lparr>key := k, nodeOffset := o1\<rparr>) = k" by simp
  note slot = insert_slot [OF st n notin kx, folded idx_def a_def, folded ks1_keys_def n_def]
  have la: "idx < length a" using slot n by (simp add: a_def)
  have eq: "ks1 (tbl s') = a[idx := (a ! idx)\<lparr>key := k, nodeOffset := o1\<rparr>]"
    using k1 la by simp
  have "set (insert_at idx k (ks1_keys t)) = insert k (set (ks1_keys t))"
    using slot n by (intro set_insert_at) (simp add: ks1_keys_def n_def)
  then show ?thesis using slot eq c1 inv n by (auto simp: ks1_inv_def ks1_keys_def t_def n_def)
qed

subsection \<open>Deletion keeps the invariant\<close>

lemma freeChainKs1_frame:
  assumes "freeChainKs1 s off = Some s'"
  shows "s' = s\<lparr>freeList := freeList s'\<rparr>"
proof (rule freeChainKs1.raw_induct [where P = "\<lambda>s off s'. s' = s\<lparr>freeList := freeList s'\<rparr>", OF _ assms])
  fix f :: "st \<Rightarrow> offset \<Rightarrow> st option" and s off s'
  assume IH: "\<And>s off s'. f s off = Some s' \<Longrightarrow> s' = s\<lparr>freeList := freeList s'\<rparr>"
    and eq: "(if off = NULL_OFFSET then Some s
              else rdNode s off \<bind> (\<lambda>n. f (delNode s off) (nextNodeOffset n))) = Some s'"
  show "s' = s\<lparr>freeList := freeList s'\<rparr>"
  proof (cases "off = NULL_OFFSET")
    case True
    with eq show ?thesis by simp
  next
    case False
    with eq obtain n :: Node1 where "f (delNode s off) (nextNodeOffset n) = Some s'"
      by (auto split: Option.bind_splits)
    from IH [OF this] show ?thesis by (simp add: delNode_def)
  qed
qed

lemma ks1_keys_delete:
  assumes inv: "ks1_inv t" and i: "i < csize1 t"
  defines "t' \<equiv> t\<lparr>ks1 := shift_down (ks1 t) i (csize1 t - 1), csize1 := csize1 t - 1\<rparr>"
  shows "ks1_inv t' \<and> ks1_keys t' = remove_at i (ks1_keys t)"
  using remove_slot [of key "csize1 t" "ks1 t" i] inv i
  by (auto simp: ks1_inv_def ks1_keys_def t'_def)

lemma deleteKeyKs1_True:
  assumes inv: "ks1_inv (tbl s)" and r: "deleteKeyKs1 s k True = Some (r, s')"
  shows "ks1_inv (tbl s') \<and>
         ks1_keys (tbl s') = (case findKeyIdxKs1 (tbl s) k of None \<Rightarrow> ks1_keys (tbl s)
                              | Some i \<Rightarrow> remove_at i (ks1_keys (tbl s))) \<and>
         ks2 (tbl s') = ks2 (tbl s) \<and> csize2 (tbl s') = csize2 (tbl s) \<and>
         msize2 (tbl s') = msize2 (tbl s) \<and> ks2F s' = ks2F s"
proof (cases "findKeyIdxKs1 (tbl s) k")
  case None
  with r inv show ?thesis by (simp add: deleteKeyKs1.simps)
next
  case (Some i)
  from r Some obtain s1 where fc: "freeChainKs1 s (nodeOffset (ks1 (tbl s) ! i)) = Some s1"
    and s': "s' = s1\<lparr>tbl := (tbl s1)\<lparr>ks1 := shift_down (ks1 (tbl s1)) i (csize1 (tbl s1) - 1),
                                      csize1 := csize1 (tbl s1) - 1\<rparr>\<rparr>"
    by (auto simp: Let_def deleteKeyKs1.simps)
  from freeChainKs1_frame [OF fc] have "tbl s1 = tbl s" "ks2F s1 = ks2F s"
    by (metis st.select_convs st.surjective st.update_convs)+
  moreover have "i < csize1 (tbl s)" using findKeyIdxKs1_Some [OF Some] by simp
  ultimately show ?thesis using ks1_keys_delete [OF inv] s' Some by simp
qed

subsection \<open>Frame\<close>

lemma ks1_same_refl [simp]: "ks1_same s s"
  by (simp add: ks1_same_def)

lemma ks1_same_trans: "ks1_same s1 s2 \<Longrightarrow> ks1_same s2 s3 \<Longrightarrow> ks1_same s1 s3"
  by (simp add: ks1_same_def)

lemma ks1_inv_same: "ks1_inv (tbl s) \<Longrightarrow> ks1_same s s' \<Longrightarrow> ks1_inv (tbl s')"
  by (simp add: ks1_inv_def ks1_same_def)

lemma ks1_same_store:
  "ks1_same s (fst (wrNode s v))" "ks1_same s (fst (wrItem s w))" "ks1_same s (fst (wrKey2 s u))"
  "ks1_same s (delNode s o1)" "ks1_same s (delItem s o1)" "ks1_same s (delKey2 s o1)"
  by (simp_all add: ks1_same_def)

subsection \<open>Branches of the index operations\<close>

lemma insertKs1_ks2_frame:
  "insertKs1 s k off = Some (r, s') \<Longrightarrow> ks2 (tbl s') = ks2 (tbl s) \<and> csize2 (tbl s') = csize2 (tbl s) \<and>
     msize2 (tbl s') = msize2 (tbl s)"
  using insertKs1_found [of s k _ off r s'] insertKs1_new [of s k off r s']
  by (cases "findKeyIdxKs1 (tbl s) k") auto

lemma ks1_keys_nth:
  "i < csize1 t \<Longrightarrow> csize1 t \<le> length (ks1 t) \<Longrightarrow> ks1_keys t ! i = key (ks1 t ! i)"
  by (simp add: ks1_keys_def)

lemma deleteKeyKs1_False_step:
  assumes "findKeyIdxKs1 (tbl s) k = Some i" "rdNode s (nodeOffset (ks1 (tbl s) ! i)) = Some n"
    "nextNodeOffset n \<noteq> 0"
    "ks1_last2 (ks1F s) (nodeOffset (ks1 (tbl s) ! i)) (nodeOffset (ks1 (tbl s) ! i)) n = Some (p, l)"
    "rdNode (delNode s l) p = Some ln"
  shows "deleteKeyKs1 s k False =
           Some (0, fst (wrNode (delNode (delNode s l) p) (ln\<lparr>nextNodeOffset := NULL_OFFSET\<rparr>)))"
  using assms by (subst deleteKeyKs1.simps) (simp add: split_def)

end
