(* ===== verification/Ks2.thy ===== *)
theory Ks2
  imports BlockStore
begin

text \<open>
  The secondary index KS2 of \<open>hash_tab_om.c\<close> (lines 469--584): the bucket
  array \<open>Table.ks2\<close> of chain heads, each chain a list of \<open>KeySpace2\<close>
  records in \<open>ks2.bin\<close>. The hash is the XOR of the bytes of the key (the
  spec says their sum) modulo \<open>msize2\<close>. Keys are C strings of at most
  \<open>MAX_KEY2_LEN - 1\<close> bytes without NUL (the only producer,
  \<open>inputString\<close>, guarantees it), so \<open>strcmp(a, b) == 0\<close> is equality
  of the HOL strings and \<open>strncpy\<close> into \<open>char[8]\<close> is \<open>take 8\<close>.
\<close>

subsection \<open>Hashing\<close>

text \<open>\<open>hash % table->msize2\<close> with \<open>msize2 = 0\<close> is a division by zero:
  \<open>None\<close> (undefined behaviour).\<close>

definition hashFunction :: "Table \<Rightarrow> string \<Rightarrow> nat option" where
  "hashFunction t key2 =
     (if word_of_nat (msize2 t) = (0 :: size_t) then None
      else Some (unat (foldl (\<lambda>hash c. hash XOR word_of_nat (of_char c)) (0 :: size_t) key2
                       mod word_of_nat (msize2 t))))"

definition findKeyIdxKs2 :: "Table \<Rightarrow> string \<Rightarrow> nat option" where
  "findKeyIdxKs2 t key2 = hashFunction t key2"

definition createNewKeyKs2 :: "string \<Rightarrow> KeySpace2" where
  "createNewKeyKs2 key2 =
     \<lparr>ks2_key = take MAX_KEY2_LEN key2, ks2_itemOffset = NULL_OFFSET,
      nextKeySpace2Offset = NULL_OFFSET\<rparr>"

subsection \<open>Insertion\<close>

text \<open>The loop of \<open>insertKs2\<close> over a non-empty chain: \<open>(True, off, e)\<close>
  when the entry \<open>e\<close> at \<open>off\<close> has the key, \<open>(False, off, e)\<close> with
  the last entry otherwise.\<close>

partial_function (option) ks2_scan :: "KeySpace2 bfile \<Rightarrow> string \<Rightarrow> offset \<Rightarrow> (bool \<times> offset \<times> KeySpace2) option" where
  "ks2_scan f key2 currentOffset =
     do {
       current \<leftarrow> readFromFile f currentOffset;
       if ks2_key current = key2 then Some (True, currentOffset, current)
       else if nextKeySpace2Offset current = NULL_OFFSET then Some (False, currentOffset, current)
       else ks2_scan f key2 (nextKeySpace2Offset current)
     }"

declare ks2_scan.simps [code]

text \<open>An index at or past the end of the bucket array (only possible when
  \<open>msize2\<close> exceeds the array) is a read outside the structure: \<open>None\<close>.\<close>

definition insertKs2 :: "st \<Rightarrow> string \<Rightarrow> offset \<Rightarrow> (int \<times> st) option" where
  "insertKs2 s key2 itemOff =
     (let t = tbl s in do {
      idx \<leftarrow> findKeyIdxKs2 t key2;
      if length (ks2 t) \<le> idx then None
      else
        (let currentOffset = ks2 t ! idx;
             newKey = (createNewKeyKs2 key2)\<lparr>ks2_itemOffset := itemOff\<rparr>
         in if currentOffset = NULL_OFFSET then
              (let (s1, newKeyOffset) = wrKey2 s newKey; t1 = tbl s1
               in Some (0, s1\<lparr>tbl := t1\<lparr>ks2 := (ks2 t1)[idx := newKeyOffset],
                                        csize2 := Suc (csize2 t1)\<rparr>\<rparr>))
            else do {
              (found, off, current) \<leftarrow> ks2_scan (ks2F s) key2 currentOffset;
              if found then
                (let s1 = delKey2 s off;
                     (s2, _) = wrKey2 s1 (current\<lparr>ks2_itemOffset := itemOff\<rparr>)
                 in Some (0, s2))
              else
                (let (s1, newKeyOffset) = wrKey2 s newKey;
                     s2 = delKey2 s1 off;
                     (s3, _) = wrKey2 s2 (current\<lparr>nextKeySpace2Offset := newKeyOffset\<rparr>)
                 in Some (0, s3))
            })})"

subsection \<open>Deletion\<close>

text \<open>The loop of \<open>deleteKeyKs2\<close>: \<open>Some (prev, cur, e)\<close> when the entry
  \<open>e\<close> at \<open>cur\<close> has the key (\<open>prev\<close> the offset before it, or \<open>cur\<close>
  itself at the head), \<open>None\<close> when the last entry is passed.\<close>

partial_function (option) ks2_scan_prev ::
  "KeySpace2 bfile \<Rightarrow> string \<Rightarrow> offset \<Rightarrow> offset \<Rightarrow> (offset \<times> offset \<times> KeySpace2) option option" where
  "ks2_scan_prev f key2 prevElem currElem =
     do {
       toDelete \<leftarrow> readFromFile f currElem;
       if ks2_key toDelete = key2 then Some (Some (prevElem, currElem, toDelete))
       else if nextKeySpace2Offset toDelete = NULL_OFFSET then Some None
       else ks2_scan_prev f key2 currElem (nextKeySpace2Offset toDelete)
     }"

declare ks2_scan_prev.simps [code]

definition deleteKeyKs2 :: "st \<Rightarrow> string \<Rightarrow> (int \<times> st) option" where
  "deleteKeyKs2 s key2 =
     (let t = tbl s in do {
      idx \<leftarrow> findKeyIdxKs2 t key2;
      if length (ks2 t) \<le> idx then None
      else
        (let currElem = ks2 t ! idx in
         if currElem = NULL_OFFSET then Some (-1, s)
         else do {
           r \<leftarrow> ks2_scan_prev (ks2F s) key2 currElem currElem;
           case r of
             None \<Rightarrow> Some (-1, s)
           | Some (prevElem, cur, toDelete) \<Rightarrow>
               if cur = ks2 t ! idx then
                 (let t1 = t\<lparr>ks2 := (ks2 t)[idx := nextKeySpace2Offset toDelete]\<rparr>;
                      s1 = delKey2 (s\<lparr>tbl := t1\<rparr>) cur
                  in Some (0, if nextKeySpace2Offset toDelete = NULL_OFFSET
                              then s1\<lparr>tbl := t1\<lparr>csize2 := csize2 t1 - 1\<rparr>\<rparr> else s1))
               else do {
                 beforeToDelete \<leftarrow> rdKey2 s prevElem;
                 let s1 = delKey2 s prevElem;
                 let (s2, _) = wrKey2 s1
                       (beforeToDelete\<lparr>nextKeySpace2Offset := nextKeySpace2Offset toDelete\<rparr>);
                 Some (0, delKey2 s2 cur)
               }
         })})"

subsection \<open>The KS2 invariant\<close>

text \<open>\<open>csize2\<close> counts the non-empty buckets; the bucket array keeps its
  \<open>KS2_SIZE\<close> entries and \<open>msize2\<close>. \<open>ks2_same\<close> is the frame of an
  operation that leaves the KS2 part alone (the file may only grow).\<close>

definition nonempty_buckets :: "Table \<Rightarrow> nat" where
  "nonempty_buckets t = length (filter (\<lambda>h. h \<noteq> NULL_OFFSET) (ks2 t))"

definition ks2_inv :: "st \<Rightarrow> bool" where
  "ks2_inv s \<longleftrightarrow> length (ks2 (tbl s)) = KS2_SIZE \<and> msize2 (tbl s) = KS2_SIZE \<and>
     csize2 (tbl s) = nonempty_buckets (tbl s) \<and> 0 \<le> eof (ks2F s)"

definition ks2_same :: "st \<Rightarrow> st \<Rightarrow> bool" where
  "ks2_same s s' \<longleftrightarrow> ks2 (tbl s') = ks2 (tbl s) \<and> csize2 (tbl s') = csize2 (tbl s) \<and>
     msize2 (tbl s') = msize2 (tbl s) \<and> eof (ks2F s) \<le> eof (ks2F s')"


subsection \<open>Frame\<close>

lemma ks2_same_refl [simp]: "ks2_same s s"
  by (simp add: ks2_same_def)

lemma ks2_same_trans: "ks2_same s1 s2 \<Longrightarrow> ks2_same s2 s3 \<Longrightarrow> ks2_same s1 s3"
  by (auto simp: ks2_same_def)

lemma ks2_inv_same: "ks2_inv s \<Longrightarrow> ks2_same s s' \<Longrightarrow> ks2_inv s'"
  by (auto simp: ks2_inv_def ks2_same_def nonempty_buckets_def)

lemma wrKey2_same:
  "0 \<le> eof (ks2F s) \<Longrightarrow> ks2_same s (fst (wrKey2 s u)) \<and> snd (wrKey2 s u) \<noteq> NULL_OFFSET"
proof -
  assume e: "0 \<le> eof (ks2F s)"
  obtain f' fl' off where w: "writeToFile KS2_FILE sizeof_KeySpace2 u (ks2F s) (freeList s) = (f', fl', off)"
    by (cases "writeToFile KS2_FILE sizeof_KeySpace2 u (ks2F s) (freeList s)") auto
  from writeToFile_eof [OF e w] w show ?thesis
    by (simp add: ks2_same_def wrKey2_def)
qed

lemma ks2_same_store:
  "ks2_same s (fst (wrNode s v))" "ks2_same s (fst (wrItem s w))"
  "ks2_same s (delNode s o1)" "ks2_same s (delItem s o1)" "ks2_same s (delKey2 s o1)"
  by (simp_all add: ks2_same_def wrNode_def wrItem_def delNode_def delItem_def delKey2_def split_def Let_def)

subsection \<open>Hashing stays in range\<close>

lemma hashFunction_less:
  "0 < msize2 t \<Longrightarrow> msize2 t < 2 ^ 64 \<Longrightarrow> \<exists>h. hashFunction t k = Some h \<and> h < msize2 t"
proof -
  assume m: "0 < msize2 t" "msize2 t < 2 ^ 64"
  let ?w = "word_of_nat (msize2 t) :: size_t"
  have "unat ?w = msize2 t" using m by (simp add: unat_of_nat)
  moreover have "?w \<noteq> 0" using m by (metis unat_0 calculation less_irrefl)
  ultimately show ?thesis
    unfolding hashFunction_def
    by (metis unat_mono word_mod_less_divisor word_neq_0_conv)
qed

lemma findKeyIdxKs2_inv:
  "ks2_inv s \<Longrightarrow> \<exists>idx. findKeyIdxKs2 (tbl s) k = Some idx \<and> idx < length (ks2 (tbl s))"
  using hashFunction_less [of "tbl s" k] by (simp add: ks2_inv_def findKeyIdxKs2_def)

text \<open>The XOR of bytes is a byte: whatever \<open>msize2\<close>, the hash is below 256.\<close>

lemma xor_fold_lt_256:
  "(h :: size_t) < 256 \<Longrightarrow> foldl (\<lambda>hash c. hash XOR word_of_nat (of_char c)) h cs < 256"
  by (induction cs arbitrary: h) (simp_all add: xor_lt_256 char_word_lt_256)

subsection \<open>Insertion and deletion keep the invariant\<close>

lemma nonempty_buckets_upd [simp]:
  "nonempty_buckets (t\<lparr>csize2 := c\<rparr>) = nonempty_buckets t"
  "nonempty_buckets (t\<lparr>ks1 := a\<rparr>) = nonempty_buckets t"
  "nonempty_buckets (t\<lparr>csize1 := n\<rparr>) = nonempty_buckets t"
  by (simp_all add: nonempty_buckets_def)

lemma ks2_inv_steps:
  "ks2_inv s \<Longrightarrow> ks2_inv (fst (wrKey2 s u))"
  "ks2_inv s \<Longrightarrow> ks2_inv (fst (wrNode s v))"
  "ks2_inv s \<Longrightarrow> ks2_inv (fst (wrItem s w))"
  "ks2_inv s \<Longrightarrow> ks2_inv (delKey2 s o1)"
  "ks2_inv s \<Longrightarrow> ks2_inv (delNode s o1)"
  "ks2_inv s \<Longrightarrow> ks2_inv (delItem s o1)"
  subgoal using wrKey2_same [of s u] by (simp add: ks2_inv_def) (metis ks2_inv_def ks2_inv_same)
  subgoal using ks2_inv_same ks2_same_store(1) by blast
  subgoal using ks2_inv_same ks2_same_store(2) by blast
  subgoal using ks2_inv_same ks2_same_store(5) by blast
  subgoal using ks2_inv_same ks2_same_store(3) by blast
  subgoal using ks2_inv_same ks2_same_store(4) by blast
  done

lemma insertKs2_inv:
  assumes inv: "ks2_inv s" and r: "insertKs2 s k itemOff = Some (r, s')"
  shows "ks2_inv s' \<and> tbl s' \<lparr>ks2 := ks2 (tbl s), csize2 := csize2 (tbl s)\<rparr> = tbl s"
proof -
  define t where "t = tbl s"
  define nk where "nk = (createNewKeyKs2 k)\<lparr>ks2_itemOffset := itemOff\<rparr>"
  obtain idx where fi: "findKeyIdxKs2 t k = Some idx" and idx: "idx < length (ks2 t)"
    using findKeyIdxKs2_inv [OF inv, of k] by (auto simp: t_def)
  show ?thesis
  proof (cases "ks2 t ! idx = NULL_OFFSET")
    case True
    define s1 where "s1 = fst (wrKey2 s nk)"
    define no where "no = snd (wrKey2 s nk)"
    have s': "s' = s1\<lparr>tbl := (tbl s1)\<lparr>ks2 := (ks2 (tbl s1))[idx := no], csize2 := Suc (csize2 (tbl s1))\<rparr>\<rparr>"
      using r True idx fi
      by (simp add: insertKs2_def Let_def split_def t_def [symmetric] nk_def [symmetric]
          s1_def no_def)
    have w: "ks2_same s s1" "no \<noteq> NULL_OFFSET" "tbl s1 = t"
      using wrKey2_same [of s nk] inv by (auto simp: ks2_inv_def s1_def no_def t_def)
    have "nonempty_buckets (tbl s') = Suc (nonempty_buckets t)"
      using length_filter_update [OF idx, of "\<lambda>h. h \<noteq> NULL_OFFSET" no] True w s'
      by (simp add: nonempty_buckets_def)
    then show ?thesis
      using inv w s' by (auto simp: ks2_inv_def ks2_same_def t_def)
  next
    case False
    from r False idx fi obtain found off cur where
      sc: "ks2_scan (ks2F s) k (ks2 t ! idx) = Some (found, off, cur)" and
      s': "s' = (if found then fst (wrKey2 (delKey2 s off) (cur\<lparr>ks2_itemOffset := itemOff\<rparr>))
                else fst (wrKey2 (delKey2 (fst (wrKey2 s nk)) off)
                           (cur\<lparr>nextKeySpace2Offset := snd (wrKey2 s nk)\<rparr>)))"
      by (auto simp: insertKs2_def Let_def split_def t_def [symmetric]
          nk_def [symmetric] split: if_splits)
    show ?thesis
      using s' inv ks2_inv_steps by (auto simp: delKey2_def)
  qed
qed

lemma deleteKeyKs2_head:
  assumes "findKeyIdxKs2 (tbl s) k = Some idx" "idx < length (ks2 (tbl s))" "ks2 (tbl s) ! idx = h"
    "h \<noteq> NULL_OFFSET" "ks2_scan_prev (ks2F s) k h h = Some (Some (p, h, e))"
  shows "deleteKeyKs2 s k = Some (0,
           let t1 = (tbl s)\<lparr>ks2 := (ks2 (tbl s))[idx := nextKeySpace2Offset e]\<rparr>;
               s1 = delKey2 (s\<lparr>tbl := t1\<rparr>) h
           in if nextKeySpace2Offset e = NULL_OFFSET then s1\<lparr>tbl := t1\<lparr>csize2 := csize2 t1 - 1\<rparr>\<rparr> else s1)"
  using assms by (simp add: deleteKeyKs2_def Let_def)

lemma deleteKeyKs2_inner:
  assumes "findKeyIdxKs2 (tbl s) k = Some idx" "idx < length (ks2 (tbl s))" "ks2 (tbl s) ! idx = h"
    "h \<noteq> NULL_OFFSET" "ks2_scan_prev (ks2F s) k h h = Some (Some (p, c, e))" "c \<noteq> h"
    "rdKey2 s p = Some b"
  shows "deleteKeyKs2 s k = Some (0,
           delKey2 (fst (wrKey2 (delKey2 s p) (b\<lparr>nextKeySpace2Offset := nextKeySpace2Offset e\<rparr>))) c)"
  using assms by (simp add: deleteKeyKs2_def Let_def split_def)

lemma deleteKeyKs2_inv:
  assumes inv: "ks2_inv s" and r: "deleteKeyKs2 s k = Some (r, s')"
  shows "ks2_inv s' \<and> tbl s' \<lparr>ks2 := ks2 (tbl s), csize2 := csize2 (tbl s)\<rparr> = tbl s"
proof -
  define t where "t = tbl s"
  obtain idx where fi: "findKeyIdxKs2 t k = Some idx" and idx: "idx < length (ks2 t)"
    using findKeyIdxKs2_inv [OF inv, of k] by (auto simp: t_def)
  define h where "h = ks2 t ! idx"
  note r' = r [unfolded deleteKeyKs2_def Let_def t_def [symmetric], simplified fi, simplified, folded h_def]
  show ?thesis
  proof (cases "h = NULL_OFFSET")
    case True
    with r' idx show ?thesis using inv by simp
  next
    case False
    show ?thesis
    proof (cases "ks2_scan_prev (ks2F s) k h h")
      case None
      with r' False idx show ?thesis by simp
    next
      case (Some sr)
      note scan = this
      show ?thesis
      proof (cases sr)
        case None
        with r' False idx scan inv show ?thesis by simp
      next
        case (Some tr)
        then obtain prevElem cur toDelete where tr: "sr = Some (prevElem, cur, toDelete)"
          by (cases tr) auto
        show ?thesis
        proof (cases "cur = h")
          case True
          define nx where "nx = nextKeySpace2Offset toDelete"
          have "deleteKeyKs2 s k = Some (0, let t1 = t\<lparr>ks2 := (ks2 t)[idx := nx]\<rparr>;
               s1 = delKey2 (s\<lparr>tbl := t1\<rparr>) h
           in if nx = NULL_OFFSET then s1\<lparr>tbl := t1\<lparr>csize2 := csize2 t1 - 1\<rparr>\<rparr> else s1)"
            using deleteKeyKs2_head [of s k idx h prevElem toDelete] idx False scan tr True
            using fi by (simp add: t_def h_def nx_def)
          with r have s': "s' = (let t1 = t\<lparr>ks2 := (ks2 t)[idx := nx]\<rparr>;
               s1 = delKey2 (s\<lparr>tbl := t1\<rparr>) h
           in if nx = NULL_OFFSET then s1\<lparr>tbl := t1\<lparr>csize2 := csize2 t1 - 1\<rparr>\<rparr> else s1)"
            by simp
          have cnt: "nonempty_buckets (t\<lparr>ks2 := (ks2 t)[idx := nx]\<rparr>) =
                     nonempty_buckets t - 1 + (if nx \<noteq> NULL_OFFSET then 1 else 0)"
            using length_filter_update [OF idx, of "\<lambda>h. h \<noteq> NULL_OFFSET" nx] False
            by (simp add: nonempty_buckets_def h_def)
          have "ks2 t ! idx \<in> set (filter (\<lambda>h. h \<noteq> NULL_OFFSET) (ks2 t))"
            using False idx by (simp add: h_def)
          then have pos: "0 < nonempty_buckets t"
            unfolding nonempty_buckets_def by (rule length_pos_if_in_set)
          show ?thesis
            using s' inv cnt pos by (simp add: Let_def ks2_inv_def delKey2_def t_def split: if_splits)
        next
          case ne: False
          from r' False idx scan tr ne obtain bt where bt: "rdKey2 s prevElem = Some bt"
            by (auto simp: split_def)
          have "deleteKeyKs2 s k = Some (0, delKey2 (fst (wrKey2 (delKey2 s prevElem)
                    (bt\<lparr>nextKeySpace2Offset := nextKeySpace2Offset toDelete\<rparr>))) cur)"
            using deleteKeyKs2_inner [of s k idx h prevElem cur toDelete bt] idx False scan tr ne bt
            using fi by (simp add: t_def h_def)
          with r have s': "s' = delKey2 (fst (wrKey2 (delKey2 s prevElem)
                    (bt\<lparr>nextKeySpace2Offset := nextKeySpace2Offset toDelete\<rparr>))) cur"
            by simp
          show ?thesis
            using s' inv ks2_inv_steps by (simp add: delKey2_def)
        qed
      qed
    qed
  qed
qed

end
