(* ===== verification/Items.thy ===== *)
theory Items
  imports Ks1 Ks2
begin

text \<open>
  The item engine of \<open>hash_tab_om.c\<close> (lines 594--876 and 1041--1054),
  which composes KS1, KS2 and the data file. A C result that may be
  \<open>NULL\<close> is an inner \<open>option\<close> (\<open>None\<close> for \<open>NULL\<close>) inside the
  outer \<open>option\<close> of defined behaviour. Diagnostics printed by the C code
  have no effect on the state and are not modelled; allocation of transient
  buffers is assumed to succeed.
\<close>

subsection \<open>Search\<close>

text \<open>The chain loop of \<open>findItemByKey1\<close>: the item offset of the node with
  the release, if any.\<close>

partial_function (option) ks1_find_release :: "Node1 bfile \<Rightarrow> size_t \<Rightarrow> offset \<Rightarrow> offset option option" where
  "ks1_find_release f rel currNodeOffset =
     (if currNodeOffset = NULL_OFFSET then Some None
      else do {
        currNode \<leftarrow> readFromFile f currNodeOffset;
        if release currNode = rel then Some (Some (itemOffset currNode))
        else ks1_find_release f rel (nextNodeOffset currNode)
      })"

definition findItemByKey1 :: "st \<Rightarrow> size_t \<Rightarrow> size_t \<Rightarrow> (Item \<times> offset) option option" where
  "findItemByKey1 s key1 rel =
     (let t = tbl s in
      if csize1 t = 0 then Some None
      else case bsearch key (ks1 t) key1 0 (csize1 t - 1) of
        None \<Rightarrow> Some None
      | Some middle \<Rightarrow> do {
          r \<leftarrow> ks1_find_release (ks1F s) rel (nodeOffset (ks1 t ! middle));
          case r of
            None \<Rightarrow> Some None
          | Some off \<Rightarrow> do { item \<leftarrow> rdItem s off; Some (Some (item, off)) }
        })"

text \<open>The chain loop of \<open>findItemByKey2\<close>: the item offset stored with the key.\<close>

partial_function (option) ks2_lookup :: "KeySpace2 bfile \<Rightarrow> string \<Rightarrow> offset \<Rightarrow> offset option option" where
  "ks2_lookup f key2 currentOffset =
     (if currentOffset = NULL_OFFSET then Some None
      else do {
        current \<leftarrow> readFromFile f currentOffset;
        if ks2_key current = key2 then Some (Some (ks2_itemOffset current))
        else ks2_lookup f key2 (nextKeySpace2Offset current)
      })"

definition findItemByKey2 :: "st \<Rightarrow> string \<Rightarrow> (Item \<times> offset) option option" where
  "findItemByKey2 s key2 =
     (let t = tbl s in do {
      idx \<leftarrow> findKeyIdxKs2 t key2;
      if length (ks2 t) \<le> idx then None
      else do {
        r \<leftarrow> ks2_lookup (ks2F s) key2 (ks2 t ! idx);
        case r of
          None \<Rightarrow> Some None
        | Some off \<Rightarrow> do { item \<leftarrow> rdItem s off; Some (Some (item, off)) }
      }})"

text \<open>The two loops of \<open>findItem\<close> by \<open>key1\<close>: count the releases, then
  read that many nodes and their items in chain order.\<close>

partial_function (option) ks1_count :: "Node1 bfile \<Rightarrow> offset \<Rightarrow> nat \<Rightarrow> nat option" where
  "ks1_count f nodeOff releaseNum =
     (if nodeOff = NULL_OFFSET then Some releaseNum
      else do {
        node \<leftarrow> readFromFile f nodeOff;
        ks1_count f (nextNodeOffset node) (Suc releaseNum)
      })"

declare ks1_find_release.simps [code] ks2_lookup.simps [code] ks1_count.simps [code]

fun ks1_read_items :: "st \<Rightarrow> nat \<Rightarrow> offset \<Rightarrow> Item list option" where
  "ks1_read_items s 0 nodeOff = Some []"
| "ks1_read_items s (Suc i) nodeOff =
     do {
       node \<leftarrow> rdNode s nodeOff;
       item \<leftarrow> rdItem s (itemOffset node);
       rest \<leftarrow> ks1_read_items s i (nextNodeOffset node);
       Some (item # rest)
     }"

text \<open>\<open>key2 = None\<close> is the \<open>NULL\<close> pointer. The result array is the list
  of items (its \<open>NULL\<close> terminator left implicit).\<close>

definition findItem :: "st \<Rightarrow> size_t \<Rightarrow> string option \<Rightarrow> Item list option option" where
  "findItem s key1 key2 =
     (case key2 of
       Some k2 \<Rightarrow> do {
         r \<leftarrow> findItemByKey2 s k2;
         (case r of None \<Rightarrow> Some None | Some (item, _) \<Rightarrow> Some (Some [item]))
       }
     | None \<Rightarrow>
         if key1 = INVALID_KEY1 then Some None
         else (case findKeyIdxKs1 (tbl s) key1 of
           None \<Rightarrow> Some None
         | Some idx \<Rightarrow> do {
             let head = nodeOffset (ks1 (tbl s) ! idx);
             releaseNum \<leftarrow> ks1_count (ks1F s) head 0;
             if releaseNum = 0 then Some None
             else do { items \<leftarrow> ks1_read_items s releaseNum head; Some (Some items) }
           }))"

subsection \<open>Deletion\<close>

text \<open>The loop of \<open>deleteItem\<close> by \<open>(key1, key2)\<close>: the node that owns the
  item, with the offset of its predecessor (its own offset at the head).\<close>

partial_function (option) ks1_scan_item ::
  "Node1 bfile \<Rightarrow> offset \<Rightarrow> offset \<Rightarrow> offset \<Rightarrow> (offset \<times> offset \<times> Node1) option option" where
  "ks1_scan_item f itemOff prevNodeOffset nodeToDeleteOffset =
     (if nodeToDeleteOffset = NULL_OFFSET then Some None
      else do {
        nodeToDelete \<leftarrow> readFromFile f nodeToDeleteOffset;
        if itemOffset nodeToDelete = itemOff
        then Some (Some (prevNodeOffset, nodeToDeleteOffset, nodeToDelete))
        else ks1_scan_item f itemOff nodeToDeleteOffset (nextNodeOffset nodeToDelete)
      })"

text \<open>The loop of \<open>deleteItem\<close> by \<open>key1\<close> alone: each release loses its
  KS2 entry, its record and its node; the first failure of
  \<open>deleteKeyKs2\<close> stops the loop with what was already done kept
  (\<open>False\<close>).\<close>

partial_function (option) deleteReleases :: "st \<Rightarrow> offset \<Rightarrow> (bool \<times> st) option" where
  "deleteReleases s nodeToDeleteOffset =
     (if nodeToDeleteOffset = NULL_OFFSET then Some (True, s)
      else do {
        nodeToDelete \<leftarrow> rdNode s nodeToDeleteOffset;
        itemToDelete \<leftarrow> rdItem s (itemOffset nodeToDelete);
        (delRes, s1) \<leftarrow> deleteKeyKs2 s (item_key2 itemToDelete);
        if delRes = 0 then
          deleteReleases (delNode (delItem s1 (itemOffset nodeToDelete)) nodeToDeleteOffset)
                         (nextNodeOffset nodeToDelete)
        else Some (False, s1)
      })"

declare ks1_scan_item.simps [code] deleteReleases.simps [code]

text \<open>In the composite-key branch the sole-release case calls
  \<open>deleteKeyKs1\<close> with the \<open>key1\<close> argument, which is \<open>INVALID_KEY1\<close>
  when the caller gave only \<open>key2\<close>.\<close>

definition deleteItem :: "st \<Rightarrow> size_t \<Rightarrow> string option \<Rightarrow> (int \<times> st) option" where
  "deleteItem s key1 key2 =
     (case key2 of
       Some k2 \<Rightarrow> do {
         r \<leftarrow> findItemByKey2 s k2;
         (case r of
           None \<Rightarrow> Some (-1, s)
         | Some (itemToDelete, itemToDeleteOffset) \<Rightarrow>
             (case findKeyIdxKs1 (tbl s)
                     (if key1 \<noteq> INVALID_KEY1 then key1 else item_key1 itemToDelete) of
               None \<Rightarrow> Some (-1, s)
             | Some idx1 \<Rightarrow> do {
                 let head = nodeOffset (ks1 (tbl s) ! idx1);
                 r \<leftarrow> ks1_scan_item (ks1F s) itemToDeleteOffset head head;
                 case r of
                   None \<Rightarrow> Some (-1, s)
                 | Some (prevNodeOffset, nodeToDeleteOffset, nodeToDelete) \<Rightarrow> do {
                     let s1 = delItem s itemToDeleteOffset;
                     (_, s2) \<leftarrow> deleteKeyKs2 s1 k2;
                     s3 \<leftarrow>
                       (if nodeToDeleteOffset = prevNodeOffset then
                          (let t = tbl s2;
                               s2' = s2\<lparr>tbl := t\<lparr>ks1 := (ks1 t)[idx1 :=
                                        (ks1 t ! idx1)\<lparr>nodeOffset := nextNodeOffset nodeToDelete\<rparr>]\<rparr>\<rparr>
                           in if nextNodeOffset nodeToDelete = NULL_OFFSET
                              then map_option snd (deleteKeyKs1 s2' key1 True)
                              else Some s2')
                        else do {
                          prevNode \<leftarrow> rdNode s2 prevNodeOffset;
                          let s2a = delNode s2 prevNodeOffset;
                          let (s2b, _) = wrNode s2a
                                (prevNode\<lparr>nextNodeOffset := nextNodeOffset nodeToDelete\<rparr>);
                          Some s2b
                        });
                     Some (0, delNode s3 nodeToDeleteOffset)
                   }
               }))
       }
     | None \<Rightarrow>
         if key1 = INVALID_KEY1 then Some (-1, s)
         else (case findKeyIdxKs1 (tbl s) key1 of
           None \<Rightarrow> Some (-1, s)
         | Some idxToDelete \<Rightarrow> do {
             (ok, s1) \<leftarrow> deleteReleases s (nodeOffset (ks1 (tbl s) ! idxToDelete));
             if \<not> ok then Some (-1, s1)
             else
               (let t = tbl s1;
                    a = (ks1 t)[idxToDelete := (ks1 t ! idxToDelete)\<lparr>nodeOffset := NULL_OFFSET\<rparr>]
                in Some (0, s1\<lparr>tbl := t\<lparr>ks1 := shift_down a idxToDelete (csize1 t - 1),
                                         csize1 := csize1 t - 1\<rparr>\<rparr>))
           }))"

subsection \<open>Insertion\<close>

text \<open>KS1 first; then an existing record under \<open>key2\<close> is deleted whole;
  then KS2. A failure after KS1 rolls the new release back with
  \<open>deleteKeyKs1 \<dots> False\<close>. The early returns are the \<open>Inl\<close> branch of the
  intermediate result.\<close>

definition insertItem :: "st \<Rightarrow> size_t \<Rightarrow> string \<Rightarrow> offset \<Rightarrow> (int \<times> st) option" where
  "insertItem s key1 key2 itemOff =
     do {
       (insert1Res, s1) \<leftarrow> insertKs1 s key1 itemOff;
       if insert1Res \<noteq> 0 then Some (insert1Res, s1)
       else do {
         isKeyNotOriginal \<leftarrow> findItemByKey2 s1 key2;
         r \<leftarrow>
           (case isKeyNotOriginal of
             None \<Rightarrow> Some (Inr s1)
           | Some (old, _) \<Rightarrow> do {
               (clearRes, s1') \<leftarrow> deleteItem s1 (item_key1 old) (Some key2);
               if clearRes = 0 then Some (Inr s1')
               else do {
                 (_, s1'') \<leftarrow> deleteKeyKs1 s1' key1 False;
                 Some (Inl (clearRes, s1''))
               }
             });
         case r of
           Inl res \<Rightarrow> Some res
         | Inr s2 \<Rightarrow> do {
             (insert2Res, s3) \<leftarrow> insertKs2 s2 key2 itemOff;
             if insert2Res \<noteq> 0 then do {
               (_, s4) \<leftarrow> deleteKeyKs1 s3 key1 False;
               Some (insert2Res, s4)
             }
             else Some (0, s3)
           }
       }
     }"

text \<open>\<open>createItem\<close>: the record is written to \<open>data.bin\<close> with release 0
  before it is indexed.\<close>

definition createItem ::
  "st \<Rightarrow> size_t \<Rightarrow> string \<Rightarrow> float_bits \<Rightarrow> float_bits \<Rightarrow> string \<Rightarrow> Item \<times> st \<times> offset" where
  "createItem s key1 key2 n1 n2 nt =
     (let newItem = \<lparr>num1 = n1, num2 = n2, item_note = nt, item_release = 0,
                     item_key1 = key1, item_key2 = key2\<rparr>;
          (s1, off) = wrItem s newItem
      in (newItem, s1, off))"

text \<open>The effect of \<open>addItemDialog\<close> once its input is read (lines
  1179--1183): the record is created, then indexed under its own keys.\<close>

definition addItem ::
  "st \<Rightarrow> size_t \<Rightarrow> string \<Rightarrow> float_bits \<Rightarrow> float_bits \<Rightarrow> string \<Rightarrow> (int \<times> st) option" where
  "addItem s key1 key2 n1 n2 nt =
     (let (item, s1, itemOffset) = createItem s key1 key2 n1 n2 nt
      in insertItem s1 (item_key1 item) (item_key2 item) itemOffset)"

end
