(* ===== verification/Directory.thy ===== *)
theory Directory
  imports Items
begin

text \<open>
  The table directory of \<open>hash_tab_om.c\<close> (lines 883--970) and the start of
  \<open>main\<close> (lines 1345--1354). The system state \<open>sys\<close> extends the machine
  state with the two files that are only written whole: \<open>table.bin\<close>, as its
  length in bytes and the \<open>Table\<close> snapshot in its first
  \<open>sizeof(Table)\<close> bytes (\<open>None\<close>: no file), and \<open>free_list.bin\<close>
  as bytes.
\<close>

record sys = st +
  tableFile :: "(nat \<times> Table) option"
  freeListFile :: "byte list option"

definition emptyFile :: "'a bfile" where
  "emptyFile = \<lparr>blocks = Map.empty, eof = 0\<rparr>"

text \<open>\<open>createDataFiles\<close> truncates the four data files. It does not touch
  the in-memory free list.\<close>

definition createDataFiles :: "sys \<Rightarrow> sys" where
  "createDataFiles s =
     s\<lparr>dataF := emptyFile, ks1F := emptyFile, ks2F := emptyFile, freeListFile := Some []\<rparr>"

text \<open>\<open>saveTable\<close> writes the snapshot and compares the \<open>fwrite\<close> item count
  (1 on success) with \<open>sizeof(Table)\<close>.\<close>

definition saveTable :: "sys \<Rightarrow> int \<times> sys" where
  "saveTable s =
     (let written = (1 :: nat)
      in (if written = sizeof_Table then 0 else -1,
          s\<lparr>tableFile := Some (sizeof_Table, tbl s)\<rparr>))"

definition emptyTable :: Table where
  "emptyTable =
     \<lparr>ks1 = replicate KS1_SIZE \<lparr>key = INVALID_KEY1, nodeOffset = NULL_OFFSET\<rparr>,
      ks2 = replicate KS2_SIZE NULL_OFFSET,
      msize1 = KS1_SIZE, msize2 = KS2_SIZE, csize1 = 0, csize2 = 0\<rparr>"

definition createTable :: "sys \<Rightarrow> sys" where
  "createTable s = snd (saveTable (createDataFiles (s\<lparr>tbl := emptyTable\<rparr>)))"

text \<open>A missing or short \<open>table.bin\<close> makes a new table; otherwise the
  snapshot is read.\<close>

definition initTable :: "sys \<Rightarrow> sys" where
  "initTable s =
     (case tableFile s of
       None \<Rightarrow> createTable s
     | Some (fileSize, t) \<Rightarrow> if fileSize < sizeof_Table then createTable s else s\<lparr>tbl := t\<rparr>)"

text \<open>\<open>main\<close>: the free list is loaded before \<open>initTable\<close>.\<close>

definition mainStartup :: "sys \<Rightarrow> sys" where
  "mainStartup s = initTable (s\<lparr>freeList := loadFreeList (freeListFile s)\<rparr>)"

end
