(* ===== verification/ImHeap.thy ===== *)
theory ImHeap
  imports Prelude
begin

text \<open>
  The data of the in-memory variant \<open>src/AaDS/3_/inner_memory/hash_tab_im.c\<close>
  (lines 13--58) and the heap it lives in. Every structure the code
  allocates with \<open>malloc\<close>/\<open>calloc\<close> and reaches through a pointer is a
  record in one of three stores, maps from addresses to records: items
  (with their \<open>Info\<close> and strings, which an item owns alone), release nodes
  and KS2 chain entries. A nullable pointer is a \<open>ptr option\<close>
  (\<open>None\<close> is \<open>NULL\<close>). \<open>malloc\<close> hands out the next fresh address and is
  assumed to succeed; \<open>free\<close> removes the record, so a later access
  through the pointer finds nothing: the model stops there with \<open>None\<close>
  (undefined behaviour). The field names carry the suffix \<open>_im\<close> where
  they would clash with the structures of the file variant.
\<close>

record Info_im =
  num1_im :: float_bits
  num2_im :: float_bits
  note_im :: string

record Item_im =
  item_info_im :: Info_im
  item_release_im :: size_t
  item_key1_im :: size_t
  item_key2_im :: string

record Node1_im =
  release_im :: size_t
  info_im :: ptr
  next_im :: "ptr option"

record KeySpace1_im =
  key_im :: size_t
  node_im :: "ptr option"

record KeySpace2_im =
  ks2_key_im :: string
  ks2_info_im :: ptr
  ks2_next_im :: "ptr option"

record Table_im =
  ks1_im :: "KeySpace1_im list"
  ks2_im :: "ptr option list"
  msize1_im :: nat
  msize2_im :: nat
  csize1_im :: nat
  csize2_im :: nat

text \<open>The machine state: the table \<open>main\<close> works on, the three stores, the
  next fresh address, and the \<open>static int inResize\<close> of \<open>resizeKs2\<close>.\<close>

record imst =
  tbl_im :: Table_im
  items_im :: "ptr \<rightharpoonup> Item_im"
  nodes_im :: "ptr \<rightharpoonup> Node1_im"
  keys2_im :: "ptr \<rightharpoonup> KeySpace2_im"
  fresh_im :: ptr
  inResize :: bool

text \<open>A slot of a freshly \<open>calloc\<close>ed array: key 0, no chain.\<close>

definition zero_slot :: KeySpace1_im where
  "zero_slot = \<lparr>key_im = 0, node_im = None\<rparr>"

text \<open>\<open>(float)c / (float)m >= 0.75f\<close> and \<open><= 0.25f\<close>. For \<open>m > 0\<close> below
  \<open>2^22\<close> the single-precision quotient is on the same side of the bound
  as the exact one (the gap \<open>1/(4m)\<close> exceeds the rounding error), so the
  tests are the exact comparisons; \<open>c / 0\<close> is \<open>+inf\<close> for \<open>c > 0\<close>
  and NaN (every comparison false) for \<open>c = 0\<close>.\<close>

definition load_ge_075 :: "nat \<Rightarrow> nat \<Rightarrow> bool" where
  "load_ge_075 c m = (if m = 0 then 0 < c else 3 * m \<le> 4 * c)"

definition load_le_025 :: "nat \<Rightarrow> nat \<Rightarrow> bool" where
  "load_le_025 c m = (if m = 0 then False else 4 * c \<le> m)"

text \<open>\<open>malloc\<close> of a node or chain entry: the fresh address, the state with
  the record stored there.\<close>

definition allocNode :: "imst \<Rightarrow> Node1_im \<Rightarrow> ptr \<times> imst" where
  "allocNode s n = (fresh_im s, s\<lparr>nodes_im := (nodes_im s)(fresh_im s \<mapsto> n), fresh_im := Suc (fresh_im s)\<rparr>)"

definition allocKey2 :: "imst \<Rightarrow> KeySpace2_im \<Rightarrow> ptr \<times> imst" where
  "allocKey2 s k = (fresh_im s, s\<lparr>keys2_im := (keys2_im s)(fresh_im s \<mapsto> k), fresh_im := Suc (fresh_im s)\<rparr>)"

definition allocItem :: "imst \<Rightarrow> Item_im \<Rightarrow> ptr \<times> imst" where
  "allocItem s i = (fresh_im s, s\<lparr>items_im := (items_im s)(fresh_im s \<mapsto> i), fresh_im := Suc (fresh_im s)\<rparr>)"

text \<open>\<open>free\<close>; freeing an address that holds no record (a double free) is
  undefined behaviour.\<close>

definition freeNode :: "imst \<Rightarrow> ptr \<Rightarrow> imst option" where
  "freeNode s p = (if p \<in> dom (nodes_im s) then Some (s\<lparr>nodes_im := (nodes_im s)(p := None)\<rparr>) else None)"

definition freeKey2 :: "imst \<Rightarrow> ptr \<Rightarrow> imst option" where
  "freeKey2 s p = (if p \<in> dom (keys2_im s) then Some (s\<lparr>keys2_im := (keys2_im s)(p := None)\<rparr>) else None)"

definition freeItem :: "imst \<Rightarrow> ptr \<Rightarrow> imst option" where
  "freeItem s p = (if p \<in> dom (items_im s) then Some (s\<lparr>items_im := (items_im s)(p := None)\<rparr>) else None)"

end
