(* ===== verification/ImKs1.thy ===== *)
theory ImKs1
  imports ImHeap SortedArray
begin

text \<open>
  KS1 of the in-memory variant (\<open>hash_tab_im.c\<close> lines 73--246): the same
  sorted slot array as in the file variant, but growable. \<open>insertKs1\<close>
  doubles it (\<open>resizeKs1\<close>, a \<open>realloc\<close>) when \<open>csize1 + 1 >= msize1\<close>;
  deleting a key halves it when \<open>csize1 < msize1 / 2\<close> and
  \<open>msize1 >= 32\<close>. Release chains are linked \<open>Node1\<close> records on the heap.
  The cells \<open>realloc\<close> adds are uninitialised; the code writes each before
  it reads it, and the model fills them with \<open>zero_slot\<close>.
\<close>

definition initKs1_im :: "Table_im \<Rightarrow> nat \<Rightarrow> Table_im" where
  "initKs1_im t capacity =
     t\<lparr>ks1_im := replicate capacity zero_slot, msize1_im := capacity, csize1_im := 0\<rparr>"

definition findKeyIdxKs1_im :: "Table_im \<Rightarrow> size_t \<Rightarrow> nat option" where
  "findKeyIdxKs1_im t key1 =
     (if csize1_im t = 0 then None else bsearch key_im (ks1_im t) key1 0 (csize1_im t - 1))"

definition resizeKs1_im :: "Table_im \<Rightarrow> nat \<Rightarrow> Table_im" where
  "resizeKs1_im t newCapacity =
     t\<lparr>ks1_im := take newCapacity (ks1_im t) @ replicate (newCapacity - length (ks1_im t)) zero_slot,
       msize1_im := newCapacity\<rparr>"

text \<open>\<open>insertNewKeyKs1\<close>: the two loops, then the key written into the slot;
  the result is the table and the index of the new slot. A write at
  \<open>ks1[csize1]\<close> past the array is undefined behaviour.\<close>

definition insertNewKeyKs1_im :: "Table_im \<Rightarrow> size_t \<Rightarrow> (Table_im \<times> nat) option" where
  "insertNewKeyKs1_im t key1 =
     (if length (ks1_im t) \<le> csize1_im t then None
      else
        (let insertIdx = find_insert_idx key_im (ks1_im t) key1 (csize1_im t) 0;
             a = shift_up (ks1_im t) (csize1_im t) insertIdx
         in Some (t\<lparr>ks1_im := a[insertIdx := (a ! insertIdx)\<lparr>key_im := key1\<rparr>],
                    csize1_im := Suc (csize1_im t)\<rparr>, insertIdx)))"

text \<open>\<open>while (node->next) node = node->next\<close>: the address and record of
  the last node.\<close>

partial_function (option) ks1_tail_im :: "(ptr \<rightharpoonup> Node1_im) \<Rightarrow> ptr \<Rightarrow> (ptr \<times> Node1_im) option" where
  "ks1_tail_im h p =
     do {
       n \<leftarrow> h p;
       case next_im n of
         None \<Rightarrow> Some (p, n)
       | Some q \<Rightarrow> ks1_tail_im h q
     }"

declare ks1_tail_im.simps [code]

text \<open>\<open>insertKs1\<close>: the new node is allocated first; the release number is
  set after it is linked. The item's release is written last.\<close>

definition insertKs1_im :: "imst \<Rightarrow> size_t \<Rightarrow> ptr \<Rightarrow> (int \<times> imst) option" where
  "insertKs1_im s0 key1 item =
     (let (newNode, s) = allocNode s0 \<lparr>release_im = 0, info_im = item, next_im = None\<rparr>;
          t = tbl_im s
      in do {
        (rel, s1) \<leftarrow>
          (case findKeyIdxKs1_im t key1 of
            Some foundIdx \<Rightarrow>
              (case node_im (ks1_im t ! foundIdx) of
                Some node \<Rightarrow> do {
                  (last, n) \<leftarrow> ks1_tail_im (nodes_im s) node;
                  let h = (nodes_im s)(last \<mapsto> n\<lparr>next_im := Some newNode\<rparr>);
                  nn \<leftarrow> h newNode;
                  let rel = release_im n + 1;
                  Some (rel, s\<lparr>nodes_im := h(newNode \<mapsto> nn\<lparr>release_im := rel\<rparr>)\<rparr>)
                }
              | None \<Rightarrow>
                  Some (0, s\<lparr>tbl_im := t\<lparr>ks1_im := (ks1_im t)[foundIdx :=
                                         (ks1_im t ! foundIdx)\<lparr>node_im := Some newNode\<rparr>]\<rparr>\<rparr>))
          | None \<Rightarrow> do {
              let t1 = (if msize1_im t \<le> csize1_im t + 1 then resizeKs1_im t (2 * msize1_im t) else t);
              (t2, idx) \<leftarrow> insertNewKeyKs1_im t1 key1;
              Some (0, s\<lparr>tbl_im := t2\<lparr>ks1_im := (ks1_im t2)[idx :=
                                         (ks1_im t2 ! idx)\<lparr>node_im := Some newNode\<rparr>]\<rparr>\<rparr>)
            });
        it \<leftarrow> items_im s1 item;
        Some (0, s1\<lparr>items_im := (items_im s1)(item \<mapsto> it\<lparr>item_release_im := rel\<rparr>)\<rparr>)
      })"

text \<open>\<open>while (nodeToDelete) { next = nodeToDelete->next; free(nodeToDelete); \<dots> }\<close>.\<close>

partial_function (option) freeChain_im :: "imst \<Rightarrow> ptr option \<Rightarrow> imst option" where
  "freeChain_im s p =
     (case p of
       None \<Rightarrow> Some s
     | Some q \<Rightarrow> do {
         n \<leftarrow> nodes_im s q;
         s' \<leftarrow> freeNode s q;
         freeChain_im s' (next_im n)
       })"

declare freeChain_im.simps [code]

text \<open>\<open>while (nodeToDelete->next) { prev = nodeToDelete; \<dots> }\<close>: the
  addresses of the node before the last and of the last.\<close>

partial_function (option) ks1_last2_im :: "(ptr \<rightharpoonup> Node1_im) \<Rightarrow> ptr \<Rightarrow> ptr \<Rightarrow> (ptr \<times> ptr) option" where
  "ks1_last2_im h prev p =
     do {
       n \<leftarrow> h p;
       case next_im n of
         None \<Rightarrow> Some (prev, p)
       | Some q \<Rightarrow> ks1_last2_im h p q
     }"

declare ks1_last2_im.simps [code]

text \<open>\<open>deleteKeyKs1\<close>. The rollback branch tests \<open>!nodeToDelete->next\<close>,
  here correctly a \<open>NULL\<close> test; on a slot with no chain it dereferences
  \<open>NULL\<close> (\<open>None\<close>).\<close>

function deleteKeyKs1_im :: "imst \<Rightarrow> size_t \<Rightarrow> bool \<Rightarrow> (int \<times> imst) option" where
  "deleteKeyKs1_im s key1 allReleases =
     (case findKeyIdxKs1_im (tbl_im s) key1 of
       None \<Rightarrow> Some (-1, s)
     | Some idxToDelete \<Rightarrow>
         (let nodeToDelete = node_im (ks1_im (tbl_im s) ! idxToDelete) in
          if allReleases then do {
            s1 \<leftarrow> freeChain_im s nodeToDelete;
            let t = tbl_im s1;
            let t1 = t\<lparr>ks1_im := shift_down (ks1_im t) idxToDelete (csize1_im t - 1),
                       csize1_im := csize1_im t - 1\<rparr>;
            let t2 = (if csize1_im t1 < msize1_im t1 div 2 \<and> 32 \<le> msize1_im t1
                      then resizeKs1_im t1 (msize1_im t1 div 2) else t1);
            Some (0, s1\<lparr>tbl_im := t2\<rparr>)
          }
          else do {
            p \<leftarrow> nodeToDelete;
            n \<leftarrow> nodes_im s p;
            if next_im n = None then deleteKeyKs1_im s key1 True
            else do {
              (prev, last) \<leftarrow> ks1_last2_im (nodes_im s) p p;
              s1 \<leftarrow> freeNode s last;
              pn \<leftarrow> nodes_im s1 prev;
              Some (0, s1\<lparr>nodes_im := (nodes_im s1)(prev \<mapsto> pn\<lparr>next_im := None\<rparr>)\<rparr>)
            }
          }))"
  by pat_completeness auto
termination
  by (relation "measure (\<lambda>(s, k, b). if b then 0 else 1)") auto

declare deleteKeyKs1_im.simps [simp del]

subsection \<open>The KS1 invariant\<close>

text \<open>The keys of the occupied slots; the invariant: the array has
  \<open>msize1\<close> slots, of which fewer than \<open>msize1\<close> are occupied, in strictly
  increasing key order.\<close>

definition ks1_keys_im :: "Table_im \<Rightarrow> size_t list" where
  "ks1_keys_im t = map key_im (take (csize1_im t) (ks1_im t))"

definition ks1_inv_im :: "Table_im \<Rightarrow> bool" where
  "ks1_inv_im t \<longleftrightarrow> length (ks1_im t) = msize1_im t \<and> csize1_im t < msize1_im t \<and>
     sorted_wrt (<) (ks1_keys_im t)"

subsection \<open>Lemmas\<close>

lemma ks1_keys_im_node:
  "i < length (ks1_im t) \<Longrightarrow>
   ks1_keys_im (t\<lparr>ks1_im := (ks1_im t)[i := (ks1_im t ! i)\<lparr>node_im := p\<rparr>]\<rparr>) = ks1_keys_im t"
  by (simp add: ks1_keys_im_def take_map [symmetric] map_update_same_key)

lemma resizeKs1_im_keys:
  "csize1_im t \<le> n \<Longrightarrow> csize1_im t \<le> length (ks1_im t) \<Longrightarrow>
   ks1_keys_im (resizeKs1_im t n) = ks1_keys_im t \<and> length (ks1_im (resizeKs1_im t n)) = n \<and>
   msize1_im (resizeKs1_im t n) = n \<and> csize1_im (resizeKs1_im t n) = csize1_im t"
  by (simp add: resizeKs1_im_def ks1_keys_im_def min_def)

lemma insertNewKeyKs1_im_keys:
  assumes st: "sorted_wrt (<) (ks1_keys_im t)" and notin: "k \<notin> set (ks1_keys_im t)"
    and r: "insertNewKeyKs1_im t k = Some (t', idx)"
  shows "idx < csize1_im t' \<and> csize1_im t' = Suc (csize1_im t) \<and> csize1_im t' \<le> length (ks1_im t') \<and>
         length (ks1_im t') = length (ks1_im t) \<and> msize1_im t' = msize1_im t \<and>
         ks1_keys_im t' = insert_at idx k (ks1_keys_im t) \<and> sorted_wrt (<) (ks1_keys_im t')"
proof -
  define n where "n = csize1_im t"
  have n: "n < length (ks1_im t)" using r by (simp add: insertNewKeyKs1_im_def n_def split: if_splits)
  define a where "a = shift_up (ks1_im t) n (find_insert_idx key_im (ks1_im t) k n 0)"
  have i: "idx = find_insert_idx key_im (ks1_im t) k n 0"
    and t': "t' = t\<lparr>ks1_im := a[idx := (a ! idx)\<lparr>key_im := k\<rparr>], csize1_im := Suc n\<rparr>"
    using r n by (auto simp: insertNewKeyKs1_im_def n_def a_def Let_def)
  have kx: "key_im ((a ! idx)\<lparr>key_im := k\<rparr>) = k" by simp
  have st': "sorted_wrt (<) (map key_im (take n (ks1_im t)))" using st by (simp add: ks1_keys_im_def n_def)
  have notin': "k \<notin> set (map key_im (take n (ks1_im t)))" using notin by (simp add: ks1_keys_im_def n_def)
  note slot = insert_slot [OF st' n notin' kx, folded i, folded a_def [unfolded i [symmetric]]]
  show ?thesis using slot n t' by (auto simp: ks1_keys_im_def n_def)
qed

lemma insertKs1_im_found:
  assumes f: "findKeyIdxKs1_im (tbl_im s) k = Some i" and r: "insertKs1_im s k item = Some (rv, s')"
  shows "\<exists>q. tbl_im s' = tbl_im s \<or>
             tbl_im s' = (tbl_im s)\<lparr>ks1_im := (ks1_im (tbl_im s))[i := (ks1_im (tbl_im s) ! i)\<lparr>node_im := q\<rparr>]\<rparr>"
  using f r by (auto simp: insertKs1_im_def allocNode_def Let_def split_def split: option.splits)

lemma insertKs1_im_new:
  assumes f: "findKeyIdxKs1_im (tbl_im s) k = None" and r: "insertKs1_im s k item = Some (rv, s')"
  defines "t1 \<equiv> (if msize1_im (tbl_im s) \<le> csize1_im (tbl_im s) + 1
                  then resizeKs1_im (tbl_im s) (2 * msize1_im (tbl_im s)) else tbl_im s)"
  shows "\<exists>t2 idx q. insertNewKeyKs1_im t1 k = Some (t2, idx) \<and>
           tbl_im s' = t2\<lparr>ks1_im := (ks1_im t2)[idx := (ks1_im t2 ! idx)\<lparr>node_im := q\<rparr>]\<rparr>"
  using f r unfolding t1_def
  by (auto simp: insertKs1_im_def allocNode_def Let_def split_def split: option.splits)

lemma findKeyIdxKs1_im_None:
  "ks1_inv_im t \<Longrightarrow> (findKeyIdxKs1_im t k = None) = (k \<notin> set (ks1_keys_im t))"
  unfolding findKeyIdxKs1_im_def ks1_keys_im_def ks1_inv_im_def
  by (rule bsearch_prefix_None) auto

lemma findKeyIdxKs1_im_Some:
  "findKeyIdxKs1_im t k = Some i \<Longrightarrow> i < csize1_im t \<and> key_im (ks1_im t ! i) = k"
  unfolding findKeyIdxKs1_im_def by (rule bsearch_prefix_Some)

lemma in_ks1_keys_im:
  "ks1_inv_im t \<Longrightarrow> (k \<in> set (ks1_keys_im t)) = (\<exists>i < csize1_im t. key_im (ks1_im t ! i) = k)"
  unfolding ks1_keys_im_def ks1_inv_im_def by (rule in_map_take) simp

lemma freeChain_im_tbl:
  assumes "freeChain_im s p = Some s'"
  shows "tbl_im s' = tbl_im s"
proof (rule freeChain_im.raw_induct [where P = "\<lambda>s p s'. tbl_im s' = tbl_im s", OF _ assms])
  fix f :: "imst \<Rightarrow> ptr option \<Rightarrow> imst option" and s p s'
  assume IH: "\<And>s p s'. f s p = Some s' \<Longrightarrow> tbl_im s' = tbl_im s"
    and eq: "(case p of None \<Rightarrow> Some s
              | Some q \<Rightarrow> nodes_im s q \<bind> (\<lambda>n. freeNode s q \<bind> (\<lambda>s'. f s' (next_im n)))) = Some s'"
  show "tbl_im s' = tbl_im s"
  proof (cases p)
    case None
    with eq show ?thesis by simp
  next
    case (Some q)
    with eq obtain n :: Node1_im and s1 where "freeNode s q = Some s1" "f s1 (next_im n) = Some s'"
      by (auto split: Option.bind_splits)
    with IH show ?thesis by (auto simp: freeNode_def split: if_splits)
  qed
qed

subsection \<open>Insertion and deletion keep the invariant\<close>

text \<open>Before a new key, \<open>insertKs1\<close> doubles a nearly full array: the keys
  stay, and two free slots are left.\<close>

lemma grow_ks1_im:
  assumes inv: "ks1_inv_im t"
  defines "t1 \<equiv> (if msize1_im t \<le> csize1_im t + 1 then resizeKs1_im t (2 * msize1_im t) else t)"
  shows "ks1_keys_im t1 = ks1_keys_im t \<and> length (ks1_im t1) = msize1_im t1 \<and>
         csize1_im t1 = csize1_im t \<and> Suc (csize1_im t1) < msize1_im t1"
proof (cases "msize1_im t \<le> csize1_im t + 1")
  case True
  have "csize1_im t \<le> 2 * msize1_im t" "csize1_im t \<le> length (ks1_im t)"
    using inv by (auto simp: ks1_inv_im_def)
  from resizeKs1_im_keys [OF this] True inv show ?thesis
    by (auto simp: t1_def ks1_inv_im_def)
next
  case False
  with inv show ?thesis by (simp add: t1_def ks1_inv_im_def)
qed

lemma insertKs1_im_found_inv:
  assumes inv: "ks1_inv_im (tbl_im s)" and f: "findKeyIdxKs1_im (tbl_im s) k = Some i"
    and r: "insertKs1_im s k item = Some (rv, s')"
  shows "ks1_inv_im (tbl_im s') \<and> set (ks1_keys_im (tbl_im s')) = insert k (set (ks1_keys_im (tbl_im s)))"
proof -
  have i: "i < length (ks1_im (tbl_im s))"
    using findKeyIdxKs1_im_Some [OF f] inv by (auto simp: ks1_inv_im_def)
  have kin: "k \<in> set (ks1_keys_im (tbl_im s))"
    using findKeyIdxKs1_im_Some [OF f] in_ks1_keys_im [OF inv] by blast
  from insertKs1_im_found [OF f r] obtain q where
    "tbl_im s' = tbl_im s \<or>
     tbl_im s' = (tbl_im s)\<lparr>ks1_im := (ks1_im (tbl_im s))[i := (ks1_im (tbl_im s) ! i)\<lparr>node_im := q\<rparr>]\<rparr>"
    by blast
  then show ?thesis
  proof
    assume "tbl_im s' = tbl_im s"
    with inv kin show ?thesis by auto
  next
    assume e: "tbl_im s' = (tbl_im s)\<lparr>ks1_im := (ks1_im (tbl_im s))[i := (ks1_im (tbl_im s) ! i)\<lparr>node_im := q\<rparr>]\<rparr>"
    have "ks1_keys_im (tbl_im s') = ks1_keys_im (tbl_im s)" unfolding e by (rule ks1_keys_im_node [OF i])
    with e inv kin show ?thesis by (auto simp: ks1_inv_im_def)
  qed
qed

lemma insertKs1_im_new_inv:
  assumes inv: "ks1_inv_im (tbl_im s)" and f: "findKeyIdxKs1_im (tbl_im s) k = None"
    and r: "insertKs1_im s k item = Some (rv, s')"
  shows "ks1_inv_im (tbl_im s') \<and> set (ks1_keys_im (tbl_im s')) = insert k (set (ks1_keys_im (tbl_im s)))"
proof -
  define t1 where "t1 = (if msize1_im (tbl_im s) \<le> csize1_im (tbl_im s) + 1
                          then resizeKs1_im (tbl_im s) (2 * msize1_im (tbl_im s)) else tbl_im s)"
  note t1 = grow_ks1_im [OF inv, folded t1_def]
  from insertKs1_im_new [OF f r] obtain t2 idx q where
    n: "insertNewKeyKs1_im t1 k = Some (t2, idx)" and
    e: "tbl_im s' = t2\<lparr>ks1_im := (ks1_im t2)[idx := (ks1_im t2 ! idx)\<lparr>node_im := q\<rparr>]\<rparr>"
    unfolding t1_def by blast
  have st: "sorted_wrt (<) (ks1_keys_im t1)" using inv t1 by (simp add: ks1_inv_im_def)
  have notin: "k \<notin> set (ks1_keys_im t1)" using f findKeyIdxKs1_im_None [OF inv] t1 by simp
  note ins = insertNewKeyKs1_im_keys [OF st notin n]
  have il: "idx < length (ks1_im t2)" using ins by simp
  have k2: "ks1_keys_im (tbl_im s') = insert_at idx k (ks1_keys_im t1)"
    unfolding e ks1_keys_im_node [OF il] using ins by simp
  have "idx \<le> length (ks1_keys_im t1)" using ins t1 by (simp add: ks1_keys_im_def)
  then have "set (ks1_keys_im (tbl_im s')) = insert k (set (ks1_keys_im (tbl_im s)))"
    using k2 t1 by simp
  moreover have "ks1_inv_im (tbl_im s')"
    using ins t1 e k2 by (auto simp: ks1_inv_im_def ks1_keys_im_def)
  ultimately show ?thesis by simp
qed

text \<open>After a deletion, \<open>deleteKeyKs1\<close> halves an array of at least 32
  slots that is less than half full: the keys stay and the invariant
  holds.\<close>

lemma shrink_ks1_im:
  assumes "length (ks1_im t1) = msize1_im t1" "csize1_im t1 < msize1_im t1" "sorted_wrt (<) (ks1_keys_im t1)"
  defines "t2 \<equiv> (if csize1_im t1 < msize1_im t1 div 2 \<and> 32 \<le> msize1_im t1
                 then resizeKs1_im t1 (msize1_im t1 div 2) else t1)"
  shows "ks1_inv_im t2 \<and> ks1_keys_im t2 = ks1_keys_im t1"
proof (cases "csize1_im t1 < msize1_im t1 div 2 \<and> 32 \<le> msize1_im t1")
  case True
  then have "csize1_im t1 \<le> msize1_im t1 div 2" "csize1_im t1 \<le> length (ks1_im t1)" using assms(1) by auto
  from resizeKs1_im_keys [OF this] True assms(3) show ?thesis
    by (simp add: ks1_inv_im_def t2_def)
next
  case False
  then have "t2 = t1" by (simp only: t2_def if_False)
  then show ?thesis using assms(1-3) by (simp add: ks1_inv_im_def)
qed

lemma deleteKeyKs1_im_found:
  assumes inv: "ks1_inv_im (tbl_im s)" and f: "findKeyIdxKs1_im (tbl_im s) k = Some i"
    and r: "deleteKeyKs1_im s k True = Some (rv, s')"
  shows "ks1_inv_im (tbl_im s') \<and> ks1_keys_im (tbl_im s') = remove_at i (ks1_keys_im (tbl_im s)) \<and>
         i < length (ks1_keys_im (tbl_im s)) \<and> ks1_keys_im (tbl_im s) ! i = k"
proof -
  define t where "t = tbl_im s"
  from r f obtain s1 where fc: "freeChain_im s (node_im (ks1_im t ! i)) = Some s1"
    and s': "tbl_im s' = (let t1 = (tbl_im s1)\<lparr>ks1_im := shift_down (ks1_im (tbl_im s1)) i (csize1_im (tbl_im s1) - 1),
                                   csize1_im := csize1_im (tbl_im s1) - 1\<rparr>
                         in if csize1_im t1 < msize1_im t1 div 2 \<and> 32 \<le> msize1_im t1
                            then resizeKs1_im t1 (msize1_im t1 div 2) else t1)"
    by (auto simp: deleteKeyKs1_im.simps t_def Let_def)
  have ts1: "tbl_im s1 = t" using freeChain_im_tbl [OF fc] by (simp add: t_def)
  have i: "i < csize1_im t" "key_im (ks1_im t ! i) = k"
    using findKeyIdxKs1_im_Some [OF f] by (auto simp: t_def)
  have st: "sorted_wrt (<) (map key_im (take (csize1_im t) (ks1_im t)))" and n: "csize1_im t \<le> length (ks1_im t)"
    using inv by (auto simp: ks1_inv_im_def ks1_keys_im_def t_def)
  define t1 where "t1 = t\<lparr>ks1_im := shift_down (ks1_im t) i (csize1_im t - 1), csize1_im := csize1_im t - 1\<rparr>"
  note rs = remove_slot [OF st n i(1)]
  have k1: "ks1_keys_im t1 = remove_at i (ks1_keys_im t)" "length (ks1_im t1) = msize1_im t1"
      "csize1_im t1 < msize1_im t1" "sorted_wrt (<) (ks1_keys_im t1)"
    using rs inv i by (auto simp: t1_def ks1_keys_im_def ks1_inv_im_def t_def)
  have "tbl_im s' = (if csize1_im t1 < msize1_im t1 div 2 \<and> 32 \<le> msize1_im t1
                     then resizeKs1_im t1 (msize1_im t1 div 2) else t1)"
    using s' ts1 by (simp add: t1_def Let_def)
  then have "ks1_inv_im (tbl_im s') \<and> ks1_keys_im (tbl_im s') = ks1_keys_im t1"
    using shrink_ks1_im [OF k1(2-4)] by simp
  moreover have "i < length (ks1_keys_im t)" "ks1_keys_im t ! i = k" using i n by (auto simp: ks1_keys_im_def)
  ultimately show ?thesis using k1(1) by (simp add: t_def)
qed

end
