(* ===== verification/ImKs2.thy ===== *)
theory ImKs2
  imports ImHeap
begin

text \<open>
  KS2 of the in-memory variant (\<open>hash_tab_im.c\<close> lines 251--451): a
  growable bucket array of chains of \<open>KeySpace2\<close> entries on the heap.
  \<open>insertKs2\<close> first doubles the array when the load reaches 0.75, and
  \<open>deleteKeyKs2\<close> halves it when the load falls to 0.25 (from 32 buckets
  up); \<open>resizeKs2\<close> rehashes every entry into a temporary table by calling
  \<open>insertKs2\<close> on it, which may call \<open>resizeKs2\<close> again: the
  \<open>static int inResize\<close> flag makes that inner call return at once.
  Because of this mutual recursion the three routines are one
  \<open>partial_function\<close> over a datatype of calls: \<open>InsertKs2\<close> (the
  function), \<open>ResizeKs2\<close> (the function) and \<open>Rehash\<close> (one step of its
  rehashing loop over the old buckets and chains).
\<close>

definition zeroTable_im :: Table_im where
  "zeroTable_im = \<lparr>ks1_im = [], ks2_im = [], msize1_im = 0, msize2_im = 0, csize1_im = 0, csize2_im = 0\<rparr>"

definition initKs2_im :: "Table_im \<Rightarrow> nat \<Rightarrow> Table_im" where
  "initKs2_im t capacity = t\<lparr>ks2_im := replicate capacity None, msize2_im := capacity, csize2_im := 0\<rparr>"

definition hashFunction_im :: "Table_im \<Rightarrow> string \<Rightarrow> nat" where
  "hashFunction_im t key2 =
     unat (foldl (\<lambda>hash c. hash XOR word_of_nat (of_char c)) (0 :: size_t) key2
           mod word_of_nat (msize2_im t))"

definition findKeyIdxKs2_im :: "Table_im \<Rightarrow> string \<Rightarrow> nat" where
  "findKeyIdxKs2_im t key2 = hashFunction_im t key2"

text \<open>\<open>table->ks2[i]\<close>; an index past the array is undefined behaviour.\<close>

definition bucket_im :: "Table_im \<Rightarrow> nat \<Rightarrow> ptr option option" where
  "bucket_im t i = (if i < length (ks2_im t) then Some (ks2_im t ! i) else None)"

definition createNewKeyKs2_im :: "string \<Rightarrow> KeySpace2_im" where
  "createNewKeyKs2_im key2 = \<lparr>ks2_key_im = key2, ks2_info_im = 0, ks2_next_im = None\<rparr>"

subsection \<open>Chain walks\<close>

text \<open>The loop of \<open>insertKs2\<close> over a non-empty chain: \<open>Inl p\<close> when the
  entry at \<open>p\<close> has the key, \<open>Inr p\<close> with the last entry otherwise.\<close>

partial_function (option) ks2_scan_im :: "(ptr \<rightharpoonup> KeySpace2_im) \<Rightarrow> string \<Rightarrow> ptr \<Rightarrow> (ptr + ptr) option" where
  "ks2_scan_im h key2 p =
     do {
       e \<leftarrow> h p;
       if ks2_key_im e = key2 then Some (Inl p)
       else case ks2_next_im e of
         None \<Rightarrow> Some (Inr p)
       | Some q \<Rightarrow> ks2_scan_im h key2 q
     }"

text \<open>The loop of \<open>deleteKeyKs2\<close>: the predecessor, the address and the
  entry with the key, if any.\<close>

partial_function (option) ks2_scan_prev_im ::
  "(ptr \<rightharpoonup> KeySpace2_im) \<Rightarrow> string \<Rightarrow> ptr option \<Rightarrow> ptr option \<Rightarrow> (ptr option \<times> ptr \<times> KeySpace2_im) option option" where
  "ks2_scan_prev_im h key2 prev cur =
     (case cur of
       None \<Rightarrow> Some None
     | Some p \<Rightarrow> do {
         e \<leftarrow> h p;
         if ks2_key_im e = key2 then Some (Some (prev, p, e))
         else ks2_scan_prev_im h key2 cur (ks2_next_im e)
       })"

text \<open>\<open>freeKs2\<close>: every chain of the first \<open>msize2\<close> buckets is freed.\<close>

partial_function (option) freeChain2_im :: "imst \<Rightarrow> ptr option \<Rightarrow> imst option" where
  "freeChain2_im s p =
     (case p of
       None \<Rightarrow> Some s
     | Some q \<Rightarrow> do {
         e \<leftarrow> keys2_im s q;
         s' \<leftarrow> freeKey2 s q;
         freeChain2_im s' (ks2_next_im e)
       })"

function freeBuckets_im :: "imst \<Rightarrow> Table_im \<Rightarrow> nat \<Rightarrow> imst option" where
  "freeBuckets_im s t i =
     (if i < msize2_im t then do {
        chain \<leftarrow> bucket_im t i;
        s' \<leftarrow> freeChain2_im s chain;
        freeBuckets_im s' t (Suc i)
      }
      else Some s)"
  by pat_completeness auto
termination
  by (relation "measure (\<lambda>(s, t, i). msize2_im t - i)") auto

declare freeBuckets_im.simps [simp del]

definition freeKs2_im :: "imst \<Rightarrow> Table_im \<Rightarrow> imst option" where
  "freeKs2_im s t = freeBuckets_im s t 0"

declare ks2_scan_im.simps [code] ks2_scan_prev_im.simps [code] freeChain2_im.simps [code]

subsection \<open>Insertion and resizing\<close>

text \<open>\<open>insertKs2\<close> after its load test (lines 369--399).\<close>

definition insertKs2_body :: "imst \<Rightarrow> string \<Rightarrow> ptr \<Rightarrow> (int \<times> imst) option" where
  "insertKs2_body s key2 item =
     (let t = tbl_im s; idx = findKeyIdxKs2_im t key2 in
      do {
        found \<leftarrow> bucket_im t idx;
        case found of
          None \<Rightarrow>
            (let (newKey, s1) = allocKey2 s ((createNewKeyKs2_im key2)\<lparr>ks2_info_im := item\<rparr>);
                 t1 = tbl_im s1
             in Some (0, s1\<lparr>tbl_im := t1\<lparr>ks2_im := (ks2_im t1)[idx := Some newKey],
                                          csize2_im := Suc (csize2_im t1)\<rparr>\<rparr>))
        | Some f \<Rightarrow> do {
            r \<leftarrow> ks2_scan_im (keys2_im s) key2 f;
            case r of
              Inl p \<Rightarrow> do {
                e \<leftarrow> keys2_im s p;
                Some (0, s\<lparr>keys2_im := (keys2_im s)(p \<mapsto> e\<lparr>ks2_info_im := item\<rparr>)\<rparr>)
              }
            | Inr prevElem \<Rightarrow>
                (let (newKey, s1) = allocKey2 s ((createNewKeyKs2_im key2)\<lparr>ks2_info_im := item\<rparr>)
                 in do {
                   e \<leftarrow> keys2_im s1 prevElem;
                   Some (0, s1\<lparr>keys2_im := (keys2_im s1)(prevElem \<mapsto> e\<lparr>ks2_next_im := Some newKey\<rparr>)\<rparr>)
                 })
          }
      })"

datatype ks2_call = InsertKs2 string ptr | ResizeKs2 nat | Rehash Table_im nat "ptr option"

text \<open>\<open>ResizeKs2\<close> returns \<open>-1\<close> for the \<open>NULL\<close> result of a refused or
  failed resize, \<open>0\<close> otherwise; the callers ignore it. \<open>Rehash oldT i c\<close>
  is the loop at bucket \<open>i\<close> of the old table with \<open>c\<close> the rest of its
  chain.\<close>

partial_function (option) ks2_op :: "ks2_call \<Rightarrow> imst \<Rightarrow> (int \<times> imst) option" where
  "ks2_op c s =
     (case c of
       InsertKs2 key2 item \<Rightarrow> do {
         s0 \<leftarrow> (if load_ge_075 (csize2_im (tbl_im s)) (msize2_im (tbl_im s))
                then do { (_, s') \<leftarrow> ks2_op (ResizeKs2 (msize2_im (tbl_im s) * 2)) s; Some s' }
                else Some s);
         insertKs2_body s0 key2 item
       }
     | ResizeKs2 newCapacity \<Rightarrow>
         (if inResize s then Some (-1, s)
          else
            (let oldT = tbl_im s;
                 s1 = s\<lparr>inResize := True, tbl_im := initKs2_im zeroTable_im newCapacity\<rparr>
             in do {
               (r, s2) \<leftarrow>
                 (if 0 < msize2_im oldT then do {
                    b \<leftarrow> bucket_im oldT 0;
                    ks2_op (Rehash oldT 0 b) s1
                  }
                  else Some (0, s1));
               if r = -1 then do {
                 s3 \<leftarrow> freeKs2_im s2 (tbl_im s2);
                 Some (-1, s3\<lparr>tbl_im := oldT, inResize := False\<rparr>)
               }
               else do {
                 s3 \<leftarrow> freeKs2_im s2 oldT;
                 let tt = tbl_im s2;
                 Some (0, s3\<lparr>tbl_im := oldT\<lparr>ks2_im := ks2_im tt, csize2_im := csize2_im tt,
                                             msize2_im := msize2_im tt\<rparr>,
                             inResize := False\<rparr>)
               }
             }))
     | Rehash oldT i chain \<Rightarrow>
         (case chain of
           Some p \<Rightarrow> do {
             e \<leftarrow> keys2_im s p;
             (r, s1) \<leftarrow> ks2_op (InsertKs2 (ks2_key_im e) (ks2_info_im e)) s;
             if r = -1 then Some (-1, s1)
             else do {
               e' \<leftarrow> keys2_im s1 p;
               ks2_op (Rehash oldT i (ks2_next_im e')) s1
             }
           }
         | None \<Rightarrow>
             if Suc i < msize2_im oldT then do {
               b \<leftarrow> bucket_im oldT (Suc i);
               ks2_op (Rehash oldT (Suc i) b) s
             }
             else Some (0, s)))"

declare ks2_op.simps [code]

definition insertKs2_im :: "imst \<Rightarrow> string \<Rightarrow> ptr \<Rightarrow> (int \<times> imst) option" where
  "insertKs2_im s key2 item = ks2_op (InsertKs2 key2 item) s"

definition resizeKs2_im :: "imst \<Rightarrow> nat \<Rightarrow> (int \<times> imst) option" where
  "resizeKs2_im s newCapacity = ks2_op (ResizeKs2 newCapacity) s"

subsection \<open>Deletion\<close>

definition deleteKeyKs2_im :: "imst \<Rightarrow> string \<Rightarrow> (int \<times> imst) option" where
  "deleteKeyKs2_im s0 key2 =
     do {
       s \<leftarrow> (if 32 \<le> msize2_im (tbl_im s0) \<and> load_le_025 (csize2_im (tbl_im s0)) (msize2_im (tbl_im s0))
             then map_option snd (resizeKs2_im s0 (msize2_im (tbl_im s0) div 2))
             else Some s0);
       let t = tbl_im s;
       let idx = findKeyIdxKs2_im t key2;
       head \<leftarrow> bucket_im t idx;
       r \<leftarrow> ks2_scan_prev_im (keys2_im s) key2 head head;
       case r of
         None \<Rightarrow> Some (-1, s)
       | Some (prevElem, findToDel, e) \<Rightarrow>
           if Some findToDel = head then do {
             let t1 = t\<lparr>ks2_im := (ks2_im t)[idx := ks2_next_im e]\<rparr>;
             s1 \<leftarrow> freeKey2 (s\<lparr>tbl_im := t1\<rparr>) findToDel;
             Some (0, if ks2_next_im e = None
                      then s1\<lparr>tbl_im := t1\<lparr>csize2_im := csize2_im t1 - 1\<rparr>\<rparr> else s1)
           }
           else do {
             pv \<leftarrow> prevElem;
             pe \<leftarrow> keys2_im s pv;
             s1 \<leftarrow> freeKey2 (s\<lparr>keys2_im := (keys2_im s)(pv \<mapsto> pe\<lparr>ks2_next_im := ks2_next_im e\<rparr>)\<rparr>) findToDel;
             Some (0, s1)
           }
     }"

end
