(* ===== verification/ImItems.thy ===== *)
theory ImItems
  imports ImKs1 ImKs2
begin

text \<open>
  The table operations of the in-memory variant (\<open>hash_tab_im.c\<close> lines
  459--734 and 797--835): search, deletion, insertion and creation of items,
  the table's creation and its destruction at exit. Items are returned as
  their addresses, as the C code returns pointers. Diagnostics are not
  modelled.
\<close>

definition initTable_im :: "nat \<Rightarrow> nat \<Rightarrow> imst" where
  "initTable_im msize1 msize2 =
     \<lparr>tbl_im = initKs2_im (initKs1_im zeroTable_im msize1) msize2,
      items_im = Map.empty, nodes_im = Map.empty, keys2_im = Map.empty, fresh_im = 1, inResize = False\<rparr>"

subsection \<open>Search\<close>

partial_function (option) ks1_find_release_im :: "(ptr \<rightharpoonup> Node1_im) \<Rightarrow> size_t \<Rightarrow> ptr option \<Rightarrow> ptr option option" where
  "ks1_find_release_im h rel currNode =
     (case currNode of
       None \<Rightarrow> Some None
     | Some p \<Rightarrow> do {
         n \<leftarrow> h p;
         if release_im n = rel then Some (Some (info_im n))
         else ks1_find_release_im h rel (next_im n)
       })"

definition findItemByKey1_im :: "imst \<Rightarrow> size_t \<Rightarrow> size_t \<Rightarrow> ptr option option" where
  "findItemByKey1_im s key1 rel =
     (let t = tbl_im s in
      if csize1_im t = 0 then Some None
      else case bsearch key_im (ks1_im t) key1 0 (csize1_im t - 1) of
        None \<Rightarrow> Some None
      | Some middle \<Rightarrow> ks1_find_release_im (nodes_im s) rel (node_im (ks1_im t ! middle)))"

partial_function (option) ks2_lookup_im :: "(ptr \<rightharpoonup> KeySpace2_im) \<Rightarrow> string \<Rightarrow> ptr option \<Rightarrow> ptr option option" where
  "ks2_lookup_im h key2 found =
     (case found of
       None \<Rightarrow> Some None
     | Some p \<Rightarrow> do {
         e \<leftarrow> h p;
         if ks2_key_im e = key2 then Some (Some (ks2_info_im e))
         else ks2_lookup_im h key2 (ks2_next_im e)
       })"

definition findItemByKey2_im :: "imst \<Rightarrow> string \<Rightarrow> ptr option option" where
  "findItemByKey2_im s key2 =
     do {
       found \<leftarrow> bucket_im (tbl_im s) (findKeyIdxKs2_im (tbl_im s) key2);
       ks2_lookup_im (keys2_im s) key2 found
     }"

text \<open>The release list of a key, oldest first (the counting loop and the
  copying loop of \<open>findItem\<close>).\<close>

partial_function (option) ks1_items_im :: "(ptr \<rightharpoonup> Node1_im) \<Rightarrow> ptr option \<Rightarrow> ptr list option" where
  "ks1_items_im h node =
     (case node of
       None \<Rightarrow> Some []
     | Some p \<Rightarrow> do {
         n \<leftarrow> h p;
         rest \<leftarrow> ks1_items_im h (next_im n);
         Some (info_im n # rest)
       })"

definition findItem_im :: "imst \<Rightarrow> size_t \<Rightarrow> string option \<Rightarrow> ptr list option option" where
  "findItem_im s key1 key2 =
     (case key2 of
       Some k2 \<Rightarrow> do {
         r \<leftarrow> findItemByKey2_im s k2;
         (case r of None \<Rightarrow> Some None | Some item \<Rightarrow> Some (Some [item]))
       }
     | None \<Rightarrow>
         if key1 = INVALID_KEY1 then Some None
         else (case findKeyIdxKs1_im (tbl_im s) key1 of
           None \<Rightarrow> Some None
         | Some idx \<Rightarrow> do {
             items \<leftarrow> ks1_items_im (nodes_im s) (node_im (ks1_im (tbl_im s) ! idx));
             Some (if items = [] then None else Some items)
           }))"

declare ks1_find_release_im.simps [code] ks2_lookup_im.simps [code] ks1_items_im.simps [code]

subsection \<open>Deletion\<close>

text \<open>The loop of \<open>deleteItem\<close> by \<open>(key1, key2)\<close>: the node that points
  to the item, with its predecessor (itself at the head) and record.\<close>

partial_function (option) ks1_scan_item_im ::
  "(ptr \<rightharpoonup> Node1_im) \<Rightarrow> ptr \<Rightarrow> ptr option \<Rightarrow> ptr option \<Rightarrow> (ptr option \<times> ptr \<times> Node1_im) option option" where
  "ks1_scan_item_im h item prev node =
     (case node of
       None \<Rightarrow> Some None
     | Some p \<Rightarrow> do {
         n \<leftarrow> h p;
         if info_im n = item then Some (Some (prev, p, n))
         else ks1_scan_item_im h item node (next_im n)
       })"

text \<open>The loop of \<open>deleteItem\<close> by \<open>key1\<close>: each release loses its KS2
  entry, then its item and node are freed; a failing \<open>deleteKeyKs2\<close> stops
  the loop (\<open>False\<close>) with what was done kept.\<close>

partial_function (option) deleteReleases_im :: "imst \<Rightarrow> ptr option \<Rightarrow> (bool \<times> imst) option" where
  "deleteReleases_im s node =
     (case node of
       None \<Rightarrow> Some (True, s)
     | Some p \<Rightarrow> do {
         n \<leftarrow> nodes_im s p;
         it \<leftarrow> items_im s (info_im n);
         (delRes, s1) \<leftarrow> deleteKeyKs2_im s (item_key2_im it);
         if delRes = 0 then do {
           s2 \<leftarrow> freeItem s1 (info_im n);
           s3 \<leftarrow> freeNode s2 p;
           deleteReleases_im s3 (next_im n)
         }
         else Some (False, s1)
       })"

declare ks1_scan_item_im.simps [code] deleteReleases_im.simps [code]

definition deleteItem_im :: "imst \<Rightarrow> size_t \<Rightarrow> string option \<Rightarrow> (int \<times> imst) option" where
  "deleteItem_im s key1 key2 =
     (case key2 of
       Some k2 \<Rightarrow> do {
         r \<leftarrow> findItemByKey2_im s k2;
         (case r of
           None \<Rightarrow> Some (-1, s)
         | Some itemToDelete \<Rightarrow> do {
             it \<leftarrow> items_im s itemToDelete;
             (case findKeyIdxKs1_im (tbl_im s) (if key1 \<noteq> INVALID_KEY1 then key1 else item_key1_im it) of
               None \<Rightarrow> Some (-1, s)
             | Some idx1 \<Rightarrow> do {
                 let head = node_im (ks1_im (tbl_im s) ! idx1);
                 r \<leftarrow> ks1_scan_item_im (nodes_im s) itemToDelete head head;
                 case r of
                   None \<Rightarrow> Some (-1, s)
                 | Some (prev, nodeToDelete, n) \<Rightarrow> do {
                     (_, s1) \<leftarrow> deleteKeyKs2_im s k2;
                     s2 \<leftarrow> freeItem s1 itemToDelete;
                     s3 \<leftarrow>
                       (if Some nodeToDelete = prev then
                          (let t = tbl_im s2;
                               s2' = s2\<lparr>tbl_im := t\<lparr>ks1_im := (ks1_im t)[idx1 :=
                                        (ks1_im t ! idx1)\<lparr>node_im := next_im n\<rparr>]\<rparr>\<rparr>
                           in if next_im n = None then map_option snd (deleteKeyKs1_im s2' key1 True)
                              else Some s2')
                        else do {
                          pv \<leftarrow> prev;
                          pn \<leftarrow> nodes_im s2 pv;
                          Some (s2\<lparr>nodes_im := (nodes_im s2)(pv \<mapsto> pn\<lparr>next_im := next_im n\<rparr>)\<rparr>)
                        });
                     s4 \<leftarrow> freeNode s3 nodeToDelete;
                     Some (0, s4)
                   }
               })
           })
       }
     | None \<Rightarrow>
         if key1 = INVALID_KEY1 then Some (-1, s)
         else (case findKeyIdxKs1_im (tbl_im s) key1 of
           None \<Rightarrow> Some (-1, s)
         | Some idxToDelete \<Rightarrow> do {
             (ok, s1) \<leftarrow> deleteReleases_im s (node_im (ks1_im (tbl_im s) ! idxToDelete));
             if \<not> ok then Some (-1, s1)
             else
               (let t = tbl_im s1;
                    a = (ks1_im t)[idxToDelete := \<lparr>key_im = INVALID_KEY1, node_im = None\<rparr>];
                    t1 = t\<lparr>ks1_im := shift_down a idxToDelete (csize1_im t - 1),
                           csize1_im := csize1_im t - 1\<rparr>;
                    t2 = (if csize1_im t1 < msize1_im t1 div 2 \<and> 32 \<le> msize1_im t1
                          then resizeKs1_im t1 (msize1_im t1 div 2) else t1)
                in Some (0, s1\<lparr>tbl_im := t2\<rparr>))
           }))"

subsection \<open>Insertion and creation\<close>

definition insertItem_im :: "imst \<Rightarrow> size_t \<Rightarrow> string \<Rightarrow> ptr \<Rightarrow> (int \<times> imst) option" where
  "insertItem_im s key1 key2 item =
     do {
       (insert1Res, s1) \<leftarrow> insertKs1_im s key1 item;
       if insert1Res \<noteq> 0 then Some (insert1Res, s1)
       else do {
         isKeyNotOriginal \<leftarrow> findItemByKey2_im s1 key2;
         r \<leftarrow>
           (case isKeyNotOriginal of
             None \<Rightarrow> Some (Inr s1)
           | Some old \<Rightarrow> do {
               oldItem \<leftarrow> items_im s1 old;
               (clearRes, s1') \<leftarrow> deleteItem_im s1 (item_key1_im oldItem) (Some key2);
               if clearRes = 0 then Some (Inr s1')
               else do {
                 (_, s1'') \<leftarrow> deleteKeyKs1_im s1' key1 False;
                 Some (Inl (clearRes, s1''))
               }
             });
         case r of
           Inl res \<Rightarrow> Some res
         | Inr s2 \<Rightarrow> do {
             (insert2Res, s3) \<leftarrow> insertKs2_im s2 key2 item;
             if insert2Res \<noteq> 0 then do {
               (_, s4) \<leftarrow> deleteKeyKs1_im s3 key1 False;
               Some (insert2Res, s4)
             }
             else Some (0, s3)
           }
       }
     }"

definition createItem_im ::
  "imst \<Rightarrow> size_t \<Rightarrow> string \<Rightarrow> float_bits \<Rightarrow> float_bits \<Rightarrow> string \<Rightarrow> ptr \<times> imst" where
  "createItem_im s key1 key2 n1 n2 note =
     allocItem s \<lparr>item_info_im = \<lparr>num1_im = n1, num2_im = n2, note_im = note\<rparr>,
                  item_release_im = 0, item_key1_im = key1, item_key2_im = key2\<rparr>"

text \<open>The effect of \<open>addItemDialog\<close> once its input is read (lines
  960--965).\<close>

definition addItem_im ::
  "imst \<Rightarrow> size_t \<Rightarrow> string \<Rightarrow> float_bits \<Rightarrow> float_bits \<Rightarrow> string \<Rightarrow> (int \<times> imst) option" where
  "addItem_im s key1 key2 n1 n2 note =
     (let (item, s1) = createItem_im s key1 key2 n1 n2 note
      in do {
        it \<leftarrow> items_im s1 item;
        insertItem_im s1 (item_key1_im it) (item_key2_im it) item
      })"

subsection \<open>Destruction\<close>

text \<open>\<open>for (i = 0; table->csize1 != 0; i++) deleteItem(table, i, NULL)\<close>:
  \<open>i\<close> is a \<open>size_t\<close> and wraps; the loop ends only when every key has been
  deleted, so a key that \<open>deleteItem\<close> refuses keeps it running.\<close>

partial_function (option) freeTable_loop :: "imst \<Rightarrow> size_t \<Rightarrow> imst option" where
  "freeTable_loop s i =
     (if csize1_im (tbl_im s) = 0 then Some s
      else do {
        (_, s') \<leftarrow> deleteItem_im s i None;
        freeTable_loop s' (i + 1)
      })"

declare freeTable_loop.simps [code]

function freeKs1_im :: "imst \<Rightarrow> Table_im \<Rightarrow> nat \<Rightarrow> imst option" where
  "freeKs1_im s t i =
     (if i < csize1_im t then do {
        s' \<leftarrow> freeChain_im s (node_im (ks1_im t ! i));
        freeKs1_im s' t (Suc i)
      }
      else Some s)"
  by pat_completeness auto
termination
  by (relation "measure (\<lambda>(s, t, i). csize1_im t - i)") auto

declare freeKs1_im.simps [simp del]

definition freeTable_im :: "imst \<Rightarrow> imst option" where
  "freeTable_im s =
     do {
       s1 \<leftarrow> freeTable_loop s 0;
       s2 \<leftarrow> freeKs1_im s1 (tbl_im s1) 0;
       freeKs2_im s2 (tbl_im s2)
     }"

subsection \<open>Lemmas\<close>

lemma deleteItem_im_stuck:
  assumes c: "csize1_im (tbl_im s) = 1" and k: "key_im (ks1_im (tbl_im s) ! 0) = INVALID_KEY1"
  shows "deleteItem_im s i None = Some (-1, s)"
proof (cases "i = INVALID_KEY1")
  case True
  then show ?thesis by (simp add: deleteItem_im_def)
next
  case False
  have "findKeyIdxKs1_im (tbl_im s) i = None"
  proof (rule ccontr)
    assume "findKeyIdxKs1_im (tbl_im s) i \<noteq> None"
    then obtain j where "findKeyIdxKs1_im (tbl_im s) i = Some j" by auto
    from findKeyIdxKs1_im_Some [OF this] c k False show False by auto
  qed
  with False show ?thesis by (simp add: deleteItem_im_def)
qed

end
