(* ===== verification/QueueSpec.thy ===== *)
theory QueueSpec
  imports Prelude
begin

text \<open>
  The queue interface of \<open>src/AaDS/2_/queue.h\<close>: the \<open>Passenger\<close> record
  the queues hold, and the list semantics both implementations
  (\<open>queue_vector.c\<close>, \<open>queue_list.c\<close>) are proved to refine. A queue is
  abstracted to the list of its passengers from the front; \<open>enqueue\<close>
  appends, \<open>dequeue\<close> removes the front, an empty queue is the empty list.
\<close>

record Passenger =
  pid :: string
  ta :: int
  ts :: int

datatype qop = Enq Passenger | Deq

text \<open>A passenger for the concrete runs of both implementations.\<close>

definition demo_passenger :: Passenger where
  "demo_passenger = \<lparr>pid = ''p1'', ta = 0, ts = 2\<rparr>"

text \<open>One operation on the abstract queue: the new contents and the
  passenger a \<open>dequeue\<close> hands back (\<open>None\<close> on underflow).\<close>

fun qspec_step :: "qop \<Rightarrow> Passenger list \<Rightarrow> Passenger list \<times> Passenger option" where
  "qspec_step (Enq x) xs = (xs @ [x], None)"
| "qspec_step Deq [] = ([], None)"
| "qspec_step Deq (x # xs) = (xs, Some x)"

fun qspec_run :: "qop list \<Rightarrow> Passenger list \<Rightarrow> Passenger list \<times> Passenger option list" where
  "qspec_run [] xs = (xs, [])"
| "qspec_run (op # ops) xs =
     (let (ys, r) = qspec_step op xs; (zs, rs) = qspec_run ops ys in (zs, r # rs))"

end
