(* ===== verification/QueueVector.thy ===== *)
theory QueueVector
  imports QueueSpec
begin

text \<open>
  The ring-buffer queue of \<open>src/AaDS/2_/queue_vector.c\<close>. The struct keeps
  the \<open>malloc\<close>ed array and three \<open>size_t\<close> indices; a slot of the array
  that was never written holds an indeterminate value, here \<open>None\<close>, and
  reading it is undefined behaviour. Every index step is
  \<open>(i + 1) % capacity\<close>, which is undefined for a capacity of 0: the
  model returns \<open>None\<close> there.
\<close>

record QueueV =
  qdata :: "Passenger option list"
  qhead :: size_t
  qtail :: size_t
  qcapacity :: size_t

text \<open>\<open>a % b\<close> on \<open>size_t\<close>; a zero divisor is undefined behaviour.\<close>

definition c_mod :: "size_t \<Rightarrow> size_t \<Rightarrow> size_t option" where
  "c_mod a b = (if b = 0 then None else Some (a mod b))"

text \<open>\<open>q->data[i]\<close> read: outside the array or never written is undefined.\<close>

definition slot_v :: "QueueV \<Rightarrow> size_t \<Rightarrow> Passenger option" where
  "slot_v q i = (if unat i < length (qdata q) then qdata q ! unat i else None)"

definition createQueue_v :: "size_t \<Rightarrow> QueueV" where
  "createQueue_v capacity =
     \<lparr>qdata = replicate (unat capacity) None, qhead = 0, qtail = 0, qcapacity = capacity\<rparr>"

definition isEmpty_v :: "QueueV \<Rightarrow> bool" where
  "isEmpty_v q = (qhead q = qtail q)"

definition isFull_v :: "QueueV \<Rightarrow> bool option" where
  "isFull_v q = do { r \<leftarrow> c_mod (qtail q + 1) (qcapacity q); Some (r = qhead q) }"

text \<open>\<open>enqueue\<close>: on a full queue it prints \<open>Overflow\<close> and changes
  nothing.\<close>

definition enqueue_v :: "QueueV \<Rightarrow> Passenger \<Rightarrow> QueueV option" where
  "enqueue_v q info =
     do {
       full \<leftarrow> isFull_v q;
       if full then Some q
       else if unat (qtail q) < length (qdata q) then do {
         t \<leftarrow> c_mod (qtail q + 1) (qcapacity q);
         Some (q\<lparr>qdata := (qdata q)[unat (qtail q) := Some info], qtail := t\<rparr>)
       }
       else None
     }"

text \<open>\<open>dequeue\<close>: the passenger written to \<open>*info\<close>, \<open>None\<close> when the
  queue is empty (it prints \<open>Underflow\<close> and leaves \<open>*info\<close> alone).\<close>

definition dequeue_v :: "QueueV \<Rightarrow> (Passenger option \<times> QueueV) option" where
  "dequeue_v q =
     (if isEmpty_v q then Some (None, q)
      else do {
        info \<leftarrow> slot_v q (qhead q);
        h \<leftarrow> c_mod (qhead q + 1) (qcapacity q);
        Some (Some info, q\<lparr>qhead := h\<rparr>)
      })"

text \<open>\<open>qSize\<close> computes in \<open>size_t\<close> and converts to \<open>int\<close> on return;
  the model keeps the \<open>size_t\<close> value, which the conversion preserves
  below \<open>2^31\<close>.\<close>

definition qSize_v :: "QueueV \<Rightarrow> size_t" where
  "qSize_v q = (if qhead q \<le> qtail q then qtail q - qhead q
                else qcapacity q - (qhead q - qtail q))"

text \<open>\<open>front\<close>: the index of \<open>&q->data[q->head]\<close>, \<open>None\<close> for \<open>NULL\<close>.\<close>

definition front_v :: "QueueV \<Rightarrow> size_t option" where
  "front_v q = (if isEmpty_v q then None else Some (qhead q))"

text \<open>\<open>printQueueState\<close> copies the struct (sharing the array) and drains
  the copy, printing each front's \<open>id\<close>; the result is the printed ids.\<close>

partial_function (option) printLoop_v :: "QueueV \<Rightarrow> string list \<Rightarrow> string list option" where
  "printLoop_v q out =
     (if isEmpty_v q then Some out
      else case front_v q of
        None \<Rightarrow> None
      | Some i \<Rightarrow> do {
          p \<leftarrow> slot_v q i;
          (_, q') \<leftarrow> dequeue_v q;
          printLoop_v q' (out @ [pid p])
        })"

declare printLoop_v.simps [code]

definition printQueueState_v :: "QueueV \<Rightarrow> string list option" where
  "printQueueState_v q = printLoop_v q []"

subsection \<open>Invariant and abstraction\<close>

text \<open>The slots of the ring from \<open>h\<close> on, \<open>n\<close> of them, modulo \<open>c\<close>.\<close>

definition ring_idx :: "nat \<Rightarrow> nat \<Rightarrow> nat \<Rightarrow> nat list" where
  "ring_idx h n c = map (\<lambda>k. (h + k) mod c) [0..<n]"

definition qlen_v :: "QueueV \<Rightarrow> nat" where
  "qlen_v q = (unat (qtail q) + unat (qcapacity q) - unat (qhead q)) mod unat (qcapacity q)"

definition invV :: "QueueV \<Rightarrow> bool" where
  "invV q = (0 < qcapacity q \<and> length (qdata q) = unat (qcapacity q) \<and>
             qhead q < qcapacity q \<and> qtail q < qcapacity q \<and>
             list_all (\<lambda>i. qdata q ! i \<noteq> None) (ring_idx (unat (qhead q)) (qlen_v q) (unat (qcapacity q))))"

definition absV :: "QueueV \<Rightarrow> Passenger list" where
  "absV q = map (\<lambda>i. the (qdata q ! i)) (ring_idx (unat (qhead q)) (qlen_v q) (unat (qcapacity q)))"


text \<open>A queue of capacity 3 holding one passenger, for the concrete runs below.\<close>

definition demo_qv :: QueueV where
  "demo_qv = the (enqueue_v (createQueue_v 3) demo_passenger)"

subsection \<open>Ring arithmetic\<close>

lemma unat_succ_lt: "(t::size_t) < c \<Longrightarrow> unat (t + 1) = Suc (unat t)"
proof -
  assume "t < c"
  then have "t \<noteq> -1" using word_order.extremum_strict by blast
  then show ?thesis using unatSuc [of t] by (metis add.commute eq_neg_iff_add_eq_0)
qed

lemma unat_mod_succ: "(t::size_t) < c \<Longrightarrow> unat ((t + 1) mod c) = Suc (unat t) mod unat c"
  by (simp add: unat_mod unat_succ_lt)

lemma ring_cancel_le:
  assumes "k \<le> n" "n < c" "(h + k) mod c = (h + n) mod (c::nat)"
  shows "k = n"
proof -
  have "c dvd (h + n) - (h + k)" using assms by (metis add_le_mono1 add.commute mod_eq_dvd_iff_nat)
  then have "c dvd n - k" by simp
  moreover have "n - k < c" using assms by simp
  ultimately show ?thesis using assms(1) by (metis diff_is_0_eq dvd_imp_le le_antisym not_less zero_less_diff)
qed

lemma ring_cancel: "k < c \<Longrightarrow> n < c \<Longrightarrow> (h + k) mod c = (h + n) mod (c::nat) \<Longrightarrow> k = n"
  by (metis nat_le_linear ring_cancel_le)

text \<open>The distance from \<open>h\<close> to \<open>h + m\<close> around the ring is \<open>m\<close>.\<close>

lemma ring_len:
  assumes "h < c" "m < (c::nat)"
  shows "((h + m) mod c + c - h) mod c = m"
proof -
  let ?x = "((h + m) mod c + c - h) mod c"
  have "(h + ?x) mod c = (h + ((h + m) mod c + c - h)) mod c" by (rule mod_add_right_eq)
  also have "h + ((h + m) mod c + c - h) = (h + m) mod c + c" using assms(1) by simp
  also have "((h + m) mod c + c) mod c = (h + m) mod c" by simp
  finally have e: "(h + ?x) mod c = (h + m) mod c" .
  have "?x < c" using assms by simp
  then show ?thesis using ring_cancel [OF _ assms(2) e] by simp
qed

lemma ring_idx_Suc: "ring_idx h (Suc n) c = ring_idx h n c @ [(h + n) mod c]"
  by (simp add: ring_idx_def)

lemma ring_idx_Cons: "ring_idx h (Suc n) c = h mod c # ring_idx ((h + 1) mod c) n c"
proof -
  have "[0..<Suc n] = 0 # map Suc [0..<n]" by (simp add: map_Suc_upt upt_conv_Cons)
  then show ?thesis by (simp add: ring_idx_def mod_add_left_eq)
qed

lemma ring_idx_notin: "n < c \<Longrightarrow> (h + n) mod c \<notin> set (ring_idx h n c)"
proof
  assume n: "n < c" and "(h + n) mod c \<in> set (ring_idx h n c)"
  then obtain k where "k < n" "(h + k) mod c = (h + n) mod c" by (auto simp: ring_idx_def)
  with n show False using ring_cancel [of k c n h] by simp
qed

lemma ring_dist:
  "h < c \<Longrightarrow> t < (c::nat) \<Longrightarrow> (t + c - h) mod c = (if h \<le> t then t - h else t + c - h)"
proof -
  assume c: "h < c" "t < c"
  show ?thesis
  proof (cases "h \<le> t")
    case True
    then have "t + c - h = (t - h) + c" by simp
    then have "(t + c - h) mod c = (t - h) mod c" by (simp only: mod_add_self2)
    also have "\<dots> = t - h" using c by simp
    finally show ?thesis using True by simp
  next
    case False
    then show ?thesis using c by simp
  qed
qed

lemma ring_idx_lt: "0 < c \<Longrightarrow> i \<in> set (ring_idx h n c) \<Longrightarrow> i < c"
  by (auto simp: ring_idx_def)

subsection \<open>The queue through its abstraction\<close>

lemma invV_nat:
  assumes "invV q"
  shows "0 < unat (qcapacity q)" "unat (qhead q) < unat (qcapacity q)"
    "unat (qtail q) < unat (qcapacity q)" "length (qdata q) = unat (qcapacity q)"
  using assms by (simp_all add: invV_def unat_gt_0 word_less_nat_alt)

lemma qlen_v_eq:
  "invV q \<Longrightarrow> qlen_v q = (if unat (qhead q) \<le> unat (qtail q) then unat (qtail q) - unat (qhead q)
                              else unat (qtail q) + unat (qcapacity q) - unat (qhead q))"
  unfolding qlen_v_def by (rule ring_dist [OF invV_nat(2,3)])

lemma qlen_lt: "invV q \<Longrightarrow> qlen_v q < unat (qcapacity q)"
  using invV_nat [of q] by (simp add: qlen_v_def)

lemma qlen_tail: "invV q \<Longrightarrow> (unat (qhead q) + qlen_v q) mod unat (qcapacity q) = unat (qtail q)"
  using invV_nat [of q] qlen_v_eq [of q] by auto

lemma qSize_v_qlen: "invV q \<Longrightarrow> unat (qSize_v q) = qlen_v q"
proof -
  assume i: "invV q"
  note n = invV_nat [OF i]
  show ?thesis
  proof (cases "qhead q \<le> qtail q")
    case True
    then have "unat (qhead q) \<le> unat (qtail q)" by (simp add: word_le_nat_alt)
    then show ?thesis using True qlen_v_eq [OF i] by (simp add: qSize_v_def unat_sub)
  next
    case False
    then have lt: "qtail q \<le> qhead q" "unat (qtail q) < unat (qhead q)"
      by (simp_all add: word_le_nat_alt word_less_nat_alt)
    have d: "unat (qhead q - qtail q) = unat (qhead q) - unat (qtail q)" using lt by (simp add: unat_sub)
    then have "qhead q - qtail q \<le> qcapacity q" using n by (simp add: word_le_nat_alt)
    then have "unat (qcapacity q - (qhead q - qtail q)) = unat (qcapacity q) - (unat (qhead q) - unat (qtail q))"
      using d by (simp add: unat_sub)
    then show ?thesis using False lt n qlen_v_eq [OF i] by (simp add: qSize_v_def)
  qed
qed

lemma isEmpty_v_qlen: "invV q \<Longrightarrow> isEmpty_v q \<longleftrightarrow> qlen_v q = 0"
  using invV_nat [of q] qlen_v_eq [of q] by (auto simp: isEmpty_v_def word_unat_eq_iff)

lemma map_nth_update_notin:
  "t \<notin> set is \<Longrightarrow> map (\<lambda>i. f (xs[t := v] ! i)) is = map (\<lambda>i. f (xs ! i)) is"
  by (induction "is") auto

lemma isFull_v_qlen: "invV q \<Longrightarrow> isFull_v q = Some (Suc (qlen_v q) = unat (qcapacity q))"
proof -
  assume i: "invV q"
  note n = invV_nat [OF i]
  let ?h = "unat (qhead q)" and ?c = "unat (qcapacity q)" and ?n = "qlen_v q"
  have c: "qcapacity q \<noteq> 0" "qtail q < qcapacity q" using i by (auto simp: invV_def)
  have "unat ((qtail q + 1) mod qcapacity q) = (?h + Suc ?n) mod ?c"
    using unat_mod_succ [OF c(2)] qlen_tail [OF i] by (metis add_Suc_right mod_Suc_eq)
  moreover have "(?h + Suc ?n) mod ?c = ?h \<longleftrightarrow> Suc ?n = ?c"
  proof
    assume e: "(?h + Suc ?n) mod ?c = ?h"
    show "Suc ?n = ?c"
    proof (rule ccontr)
      assume "Suc ?n \<noteq> ?c"
      then have "Suc ?n < ?c" using qlen_lt [OF i] by simp
      moreover have "(?h + 0) mod ?c = (?h + Suc ?n) mod ?c" using e n by simp
      ultimately show False using ring_cancel [of 0 ?c "Suc ?n" ?h] n by simp
    qed
  next
    assume "Suc ?n = ?c"
    then show "(?h + Suc ?n) mod ?c = ?h" using n by simp
  qed
  ultimately show ?thesis using c by (simp add: isFull_v_def c_mod_def word_unat_eq_iff)
qed

lemma enqueue_v_abs:
  fixes x :: Passenger
  assumes i: "invV q" and nf: "Suc (qlen_v q) < unat (qcapacity q)"
  defines "q' \<equiv> q\<lparr>qdata := (qdata q)[unat (qtail q) := Some x], qtail := (qtail q + 1) mod qcapacity q\<rparr>"
  shows "enqueue_v q x = Some q' \<and> invV q' \<and> absV q' = absV q @ [x] \<and> qlen_v q' = Suc (qlen_v q)"
proof -
  note n = invV_nat [OF i]
  let ?h = "unat (qhead q)" and ?c = "unat (qcapacity q)" and ?n = "qlen_v q" and ?t = "unat (qtail q)"
  have lt: "qtail q < qcapacity q" "qcapacity q \<noteq> 0" using i by (auto simp: invV_def)
  have e: "enqueue_v q x = Some q'"
    using isFull_v_qlen [OF i] nf n lt by (simp add: enqueue_v_def c_mod_def q'_def)
  have tl: "(?h + ?n) mod ?c = ?t" by (rule qlen_tail [OF i])
  have t': "unat (qtail q') = (?h + Suc ?n) mod ?c"
    using unat_mod_succ [OF lt(1)] tl by (simp add: q'_def) (metis add_Suc_right mod_Suc_eq)
  have len: "qlen_v q' = Suc ?n"
    using ring_len [OF n(2) nf] t' by (simp add: qlen_v_def q'_def)
  have r: "ring_idx ?h (Suc ?n) ?c = ring_idx ?h ?n ?c @ [?t]"
    using tl by (simp add: ring_idx_Suc)
  have notin: "?t \<notin> set (ring_idx ?h ?n ?c)"
    using ring_idx_notin [of ?n ?c ?h] qlen_lt [OF i] tl by simp
  have old: "list_all (\<lambda>i. qdata q ! i \<noteq> None) (ring_idx ?h ?n ?c)" using i by (simp add: invV_def)
  have "map (\<lambda>i. (qdata q)[?t := Some x] ! i \<noteq> None) (ring_idx ?h ?n ?c) = map (\<lambda>i. qdata q ! i \<noteq> None) (ring_idx ?h ?n ?c)"
    by (rule map_nth_update_notin [OF notin])
  then have "list_all (\<lambda>i. (qdata q)[?t := Some x] ! i \<noteq> None) (ring_idx ?h ?n ?c)"
    using old by (simp add: list_all_iff)
  then have inv: "invV q'"
    using i n lt t' len r nf by (simp add: invV_def q'_def word_less_nat_alt)
  have "absV q' = map (\<lambda>i. the ((qdata q)[?t := Some x] ! i)) (ring_idx ?h ?n ?c) @ [x]"
    using len r n by (simp add: absV_def q'_def)
  then have "absV q' = absV q @ [x]"
    using map_nth_update_notin [OF notin, of the "qdata q" "Some x"] by (simp add: absV_def)
  then show ?thesis using e inv len by simp
qed

lemma length_absV: "length (absV q) = qlen_v q"
  by (simp add: absV_def ring_idx_def)

lemma dequeue_v_abs:
  assumes i: "invV q" and ne: "0 < qlen_v q"
  defines "q' \<equiv> q\<lparr>qhead := (qhead q + 1) mod qcapacity q\<rparr>"
  shows "dequeue_v q = Some (Some (hd (absV q)), q') \<and> invV q' \<and> absV q' = tl (absV q) \<and>
         qlen_v q' = qlen_v q - 1"
proof -
  note n = invV_nat [OF i]
  let ?h = "unat (qhead q)" and ?c = "unat (qcapacity q)" and ?t = "unat (qtail q)"
  obtain m where m: "qlen_v q = Suc m" using ne by (cases "qlen_v q") auto
  have lt: "qhead q < qcapacity q" "qcapacity q \<noteq> 0" using i by (auto simp: invV_def)
  have h': "unat (qhead q') = (?h + 1) mod ?c"
    using unat_mod_succ [OF lt(1)] by (simp add: q'_def)
  have r: "ring_idx ?h (Suc m) ?c = ?h # ring_idx ((?h + 1) mod ?c) m ?c"
    using ring_idx_Cons [of ?h m ?c] n by simp
  have all: "list_all (\<lambda>i. qdata q ! i \<noteq> None) (ring_idx ?h (Suc m) ?c)"
    using i m by (simp add: invV_def)
  then have some: "qdata q ! ?h \<noteq> None" using r by simp
  have "\<not> isEmpty_v q" using isEmpty_v_qlen [OF i] ne by simp
  then have d: "dequeue_v q = Some (Some (the (qdata q ! ?h)), q')"
    using some n lt by (auto simp: dequeue_v_def slot_v_def c_mod_def q'_def)
  have "(?h + Suc m) mod ?c = ?t" using qlen_tail [OF i] m by simp
  then have t: "((?h + 1) mod ?c + m) mod ?c = ?t" by (simp add: mod_add_left_eq)
  have "m < ?c" using qlen_lt [OF i] m by simp
  then have len: "qlen_v q' = m"
    using ring_len [of "(?h + 1) mod ?c" ?c m] n t h' by (simp add: qlen_v_def q'_def)
  have inv: "invV q'"
    using i n lt h' len r all by (simp add: invV_def q'_def word_less_nat_alt)
  have "absV q = the (qdata q ! ?h) # absV q'"
    using m r len h' by (simp add: absV_def q'_def)
  then show ?thesis using d inv len m by simp
qed

text \<open>The print loop drains the copy in as many rounds as it holds.\<close>

lemma printLoop_v_abs:
  "invV q \<Longrightarrow> printLoop_v q out = Some (out @ map pid (absV q))"
proof (induction "qlen_v q" arbitrary: q out)
  case 0
  then have "isEmpty_v q" "absV q = []" using isEmpty_v_qlen [OF 0(2)] length_absV [of q] by simp_all
  then show ?case by (simp add: printLoop_v.simps)
next
  case (Suc m)
  let ?q' = "q\<lparr>qhead := (qhead q + 1) mod qcapacity q\<rparr>"
  note d = dequeue_v_abs [OF Suc.prems, folded Suc.hyps(2)]
  have ne: "\<not> isEmpty_v q" "absV q \<noteq> []"
    using isEmpty_v_qlen [OF Suc.prems] length_absV [of q] Suc.hyps(2) by auto
  then have "slot_v q (qhead q) = Some (hd (absV q))"
    using d by (auto simp: dequeue_v_def split: option.splits)
  moreover have "printLoop_v ?q' (out @ [pid (hd (absV q))]) = Some (out @ map pid (absV q))"
    using Suc.hyps(1) [of ?q'] d ne by (cases "absV q") simp_all
  ultimately show ?case using ne d by (subst printLoop_v.simps) (simp add: front_v_def)
qed

subsection \<open>Properties\<close>

lemma createQueue_v_inv: "0 < capacity \<Longrightarrow> invV (createQueue_v capacity) \<and> absV (createQueue_v capacity) = []"
  by (simp add: invV_def createQueue_v_def absV_def qlen_v_def ring_idx_def unat_gt_0)

text \<open>The ring's slots from the head are distinct, so the head slot can be
  rewritten in place without touching the rest of the queue (as
  \<open>main.c\<close> does through the pointer \<open>front\<close> returns).\<close>

lemma ring_idx_distinct: "n \<le> c \<Longrightarrow> distinct (ring_idx h n c)"
  unfolding ring_idx_def by (auto simp: distinct_map inj_on_def) (meson order_less_le_trans ring_cancel)

lemma ring_idx_head:
  assumes i: "invV q" and m: "qlen_v q = Suc m"
  shows "ring_idx (unat (qhead q)) (qlen_v q) (unat (qcapacity q)) =
           unat (qhead q) # ring_idx ((unat (qhead q) + 1) mod unat (qcapacity q)) m (unat (qcapacity q))"
    and "unat (qhead q) \<notin> set (ring_idx ((unat (qhead q) + 1) mod unat (qcapacity q)) m (unat (qcapacity q)))"
proof -
  note n = invV_nat [OF i]
  show r: "ring_idx (unat (qhead q)) (qlen_v q) (unat (qcapacity q)) =
           unat (qhead q) # ring_idx ((unat (qhead q) + 1) mod unat (qcapacity q)) m (unat (qcapacity q))"
    using m ring_idx_Cons [of "unat (qhead q)" m "unat (qcapacity q)"] n(2) by simp
  have "distinct (ring_idx (unat (qhead q)) (qlen_v q) (unat (qcapacity q)))"
    using qlen_lt [OF i] by (intro ring_idx_distinct) simp
  then show "unat (qhead q) \<notin> set (ring_idx ((unat (qhead q) + 1) mod unat (qcapacity q)) m (unat (qcapacity q)))"
    using r by simp
qed

lemma front_slot_v:
  assumes i: "invV q" and ne: "0 < qlen_v q"
  shows "slot_v q (qhead q) = Some (hd (absV q))"
proof -
  obtain m where m: "qlen_v q = Suc m" using ne by (cases "qlen_v q") auto
  have "qdata q ! unat (qhead q) \<noteq> None"
    using i ring_idx_head(1) [OF i m] by (simp add: invV_def)
  then show ?thesis
    using invV_nat [OF i] ring_idx_head(1) [OF i m] by (auto simp: slot_v_def absV_def)
qed

lemma set_front_v:
  fixes p :: Passenger
  assumes i: "invV q" and ne: "0 < qlen_v q"
  defines "q' \<equiv> q\<lparr>qdata := (qdata q)[unat (qhead q) := Some p]\<rparr>"
  shows "invV q' \<and> absV q' = p # tl (absV q) \<and> qlen_v q' = qlen_v q \<and> qcapacity q' = qcapacity q"
proof -
  obtain m where m: "qlen_v q = Suc m" using ne by (cases "qlen_v q") auto
  note r = ring_idx_head [OF i m]
  have l: "qlen_v q' = qlen_v q" by (simp add: q'_def qlen_v_def)
  have "list_all (\<lambda>i. qdata q ! i \<noteq> None) (ring_idx (unat (qhead q)) (qlen_v q) (unat (qcapacity q)))"
    using i by (simp add: invV_def)
  then have "invV q'"
    using i r l invV_nat [OF i] by (auto simp: invV_def q'_def list_all_iff nth_list_update)
  moreover have "absV q' = p # tl (absV q)"
    using l r invV_nat [OF i] by (simp add: absV_def q'_def map_nth_update_notin)
  ultimately show ?thesis using l by (simp add: q'_def)
qed

text \<open>C13 (enqueue refines the list queue). On a queue satisfying the ring invariant that is not full, \<open>enqueue\<close> succeeds, keeps the invariant and appends the passenger to the abstract queue.\<close>

theorem enqueue_v_refines:
  assumes "invV q" and "isFull_v q = Some False"
  shows "\<exists>q'. enqueue_v q x = Some q' \<and> invV q' \<and> absV q' = fst (qspec_step (Enq x) (absV q))"
proof -
  have "Suc (qlen_v q) < unat (qcapacity q)"
    using assms isFull_v_qlen [OF assms(1)] qlen_lt [OF assms(1)] by simp
  then show ?thesis using enqueue_v_abs [OF assms(1)] by auto
qed

theorem enqueue_v_refines_witness:
  "invV demo_qv \<and> isFull_v demo_qv = Some False \<and>
   (\<exists>q'. enqueue_v demo_qv demo_passenger = Some q' \<and> absV q' = [demo_passenger, demo_passenger])"
proof -
  have i: "invV demo_qv" by code_simp
  have f: "isFull_v demo_qv = Some False" by code_simp
  have a: "absV demo_qv = [demo_passenger]" by code_simp
  show ?thesis using enqueue_v_refines [OF i f, of demo_passenger] i f a by auto
qed

text \<open>C14 (dequeue refines the list queue). On a queue satisfying the ring invariant, \<open>dequeue\<close> hands back the front passenger (nothing on underflow), keeps the invariant and removes the front of the abstract queue.\<close>

theorem dequeue_v_refines:
  assumes "invV q"
  shows "\<exists>q'. dequeue_v q = Some (snd (qspec_step Deq (absV q)), q') \<and> invV q' \<and>
              absV q' = fst (qspec_step Deq (absV q))"
proof (cases "absV q")
  case Nil
  then have "isEmpty_v q" using isEmpty_v_qlen [OF assms] length_absV [of q] by simp
  then show ?thesis using assms Nil by (simp add: dequeue_v_def)
next
  case (Cons y ys)
  then have "0 < qlen_v q" using length_absV [of q] by simp
  then show ?thesis using dequeue_v_abs [OF assms] Cons by auto
qed

theorem dequeue_v_refines_witness:
  "invV demo_qv \<and> (\<exists>q'. dequeue_v demo_qv = Some (Some demo_passenger, q') \<and> absV q' = [])"
proof -
  have i: "invV demo_qv" by code_simp
  have a: "absV demo_qv = [demo_passenger]" by code_simp
  show ?thesis using dequeue_v_refines [OF i] i a by auto
qed

text \<open>C15 (a ring of capacity c holds c - 1 passengers). On a queue satisfying the ring invariant, \<open>isFull\<close> reports full exactly when the queue holds one passenger less than its capacity: one slot of the array is never used.\<close>

theorem isFull_v_one_slot_short:
  assumes "invV q"
  shows "isFull_v q = Some (length (absV q) = unat (qcapacity q) - 1) \<and> length (absV q) < unat (qcapacity q)"
  using isFull_v_qlen [OF assms] qlen_lt [OF assms] length_absV [of q] invV_nat(1) [OF assms] by auto

theorem isFull_v_one_slot_short_witness:
  "invV (the (enqueue_v demo_qv demo_passenger)) \<and> isFull_v (the (enqueue_v demo_qv demo_passenger)) = Some True"
proof -
  have i: "invV (the (enqueue_v demo_qv demo_passenger))" by code_simp
  have "length (absV (the (enqueue_v demo_qv demo_passenger))) = 2 \<and> qcapacity (the (enqueue_v demo_qv demo_passenger)) = 3" by code_simp
  then show ?thesis using isFull_v_one_slot_short [OF i] i by simp
qed

text \<open>C16 (printing terminates and lists the queue). On a queue satisfying the ring invariant, \<open>printQueueState\<close> returns, having printed the ids of the passengers from front to back.\<close>

theorem printQueueState_v_prints:
  assumes "invV q"
  shows "printQueueState_v q = Some (map pid (absV q))"
  using printLoop_v_abs [OF assms, of "[]"] by (simp add: printQueueState_v_def)

theorem printQueueState_v_prints_witness:
  "invV demo_qv \<and> printQueueState_v demo_qv = Some [''p1'']"
proof -
  have i: "invV demo_qv" by code_simp
  have a: "absV demo_qv = [demo_passenger]" by code_simp
  show ?thesis using printQueueState_v_prints [OF i] i a by (simp add: demo_passenger_def)
qed

end
