(* ===== verification/Airport.thy ===== *)
theory Airport
  imports QueueVector "HOL-Library.Signed_Division"
begin

text \<open>
  The check-in simulation of \<open>src/AaDS/2_/main.c\<close> over ring-buffer desks
  (\<open>queue_vector.c\<close>). The state is the array of desks, the array of
  passengers (whose arrival time \<open>ta\<close> a full desk postpones) and the
  number of \<open>rand()\<close> calls made so far; \<open>rand\<close> is a parameter, the
  stream of values the C library returns (\<open>main\<close> never calls
  \<open>srand\<close>). Parsing the input with \<open>scanf\<close> is not modelled: \<open>main\<close>
  takes the desk count and the passengers read. Each step of the time loop
  records the printed desk states when something changed.
\<close>

record airport =
  desks :: "QueueV list"
  passengers :: "Passenger list"
  rcalls :: nat

text \<open>\<open>desks[idx]\<close> for an \<open>int\<close> index; outside the array it is undefined.\<close>

definition desk_at :: "airport \<Rightarrow> int \<Rightarrow> QueueV option" where
  "desk_at st idx = (if 0 \<le> idx \<and> nat idx < length (desks st) then Some (desks st ! nat idx) else None)"

text \<open>The \<open>do { idx2 = rand() % desksNum; } while (idx1 == idx2)\<close> loop:
  the second desk and the next \<open>rand\<close> call.\<close>

partial_function (option) pick_idx2 :: "(nat \<Rightarrow> int) \<Rightarrow> int \<Rightarrow> int \<Rightarrow> nat \<Rightarrow> (int \<times> nat) option" where
  "pick_idx2 rand desksNum idx1 k =
     (let idx2 = rand k smod desksNum
      in if idx1 = idx2 then pick_idx2 rand desksNum idx1 (Suc k) else Some (idx2, Suc k))"

declare pick_idx2.simps [code]

text \<open>One passenger of the arrival loop (lines 42--62); the flag is
  \<open>isAdded\<close>. \<open>qSize\<close> values are below the capacity 3, so comparing
  the \<open>size_t\<close> values of \<open>qSize_v\<close> is comparing the \<open>int\<close>s the C code
  compares.\<close>

definition arrive_one :: "(nat \<Rightarrow> int) \<Rightarrow> int \<Rightarrow> int \<Rightarrow> airport \<Rightarrow> nat \<Rightarrow> (airport \<times> bool) option" where
  "arrive_one rand desksNum currentTime st i =
     (if ta (passengers st ! i) = currentTime then do {
        let idx1 = rand (rcalls st) smod desksNum;
        (idx2, k) \<leftarrow> pick_idx2 rand desksNum idx1 (Suc (rcalls st));
        d1 \<leftarrow> desk_at st idx1;
        d2 \<leftarrow> desk_at st idx2;
        let idx = (if qSize_v d2 < qSize_v d1 then idx2 else idx1);
        d \<leftarrow> desk_at st idx;
        full \<leftarrow> isFull_v d;
        if \<not> full then do {
          d' \<leftarrow> enqueue_v d (passengers st ! i);
          Some (st\<lparr>desks := (desks st)[nat idx := d'], rcalls := k\<rparr>, True)
        }
        else Some (st\<lparr>passengers := (passengers st)[i := (passengers st ! i)\<lparr>ta := ta (passengers st ! i) + 1\<rparr>],
                       rcalls := k\<rparr>, False)
      }
      else Some (st, False))"

fun arrive_all :: "(nat \<Rightarrow> int) \<Rightarrow> int \<Rightarrow> int \<Rightarrow> airport \<Rightarrow> nat list \<Rightarrow> (airport \<times> bool) option" where
  "arrive_all rand desksNum currentTime st [] = Some (st, False)"
| "arrive_all rand desksNum currentTime st (i # is) =
     do {
       (st1, a1) \<leftarrow> arrive_one rand desksNum currentTime st i;
       (st2, a2) \<leftarrow> arrive_all rand desksNum currentTime st1 is;
       Some (st2, a1 \<or> a2)
     }"

text \<open>One desk of the service loop (lines 67--75): the front passenger's
  \<open>ts\<close> is decremented in place and the passenger leaves at zero; the flag
  is \<open>isDeleted\<close>.\<close>

definition serve_one :: "airport \<Rightarrow> nat \<Rightarrow> (airport \<times> bool) option" where
  "serve_one st i =
     (let d = desks st ! i in
      if isEmpty_v d then Some (st, False)
      else do {
        h \<leftarrow> front_v d;
        p \<leftarrow> slot_v d h;
        let p' = p\<lparr>ts := ts p - 1\<rparr>;
        let d1 = d\<lparr>qdata := (qdata d)[unat h := Some p']\<rparr>;
        if ts p' = 0 then do {
          (_, d2) \<leftarrow> dequeue_v d1;
          Some (st\<lparr>desks := (desks st)[i := d2]\<rparr>, True)
        }
        else Some (st\<lparr>desks := (desks st)[i := d1]\<rparr>, False)
      })"

fun serve_all :: "airport \<Rightarrow> nat list \<Rightarrow> (airport \<times> bool) option" where
  "serve_all st [] = Some (st, False)"
| "serve_all st (i # is) =
     do {
       (st1, d1) \<leftarrow> serve_one st i;
       (st2, d2) \<leftarrow> serve_all st1 is;
       Some (st2, d1 \<or> d2)
     }"

text \<open>The time loop \<open>while (currentTime <= maxTime)\<close> with \<open>maxTime\<close> =
  100; the output is, for each time a desk changed, the time and the ids
  \<open>printQueueState\<close> prints for every desk.\<close>

function time_loop :: "(nat \<Rightarrow> int) \<Rightarrow> int \<Rightarrow> int \<Rightarrow> airport \<Rightarrow> (airport \<times> (int \<times> string list list) list) option" where
  "time_loop rand desksNum currentTime st =
     (if currentTime \<le> 100 then do {
        (st1, isAdded) \<leftarrow> arrive_all rand desksNum currentTime st [0..<length (passengers st)];
        (st2, isDeleted) \<leftarrow> serve_all st1 [0..<nat desksNum];
        out \<leftarrow> (if isAdded \<or> isDeleted then do {
                  shown \<leftarrow> those (map printQueueState_v (desks st2));
                  Some [(currentTime, shown)]
                } else Some []);
        (st3, rest) \<leftarrow> time_loop rand desksNum (currentTime + 1) st2;
        Some (st3, out @ rest)
      }
      else Some (st, []))"
  by pat_completeness auto
termination
  by (relation "measure (\<lambda>(_, _, t, _). nat (101 - t))") auto

declare time_loop.simps [simp del]

definition PASSENGERS_NUM :: nat where "PASSENGERS_NUM = 10"

definition QUEUE_CAPACITY :: size_t where "QUEUE_CAPACITY = 3"

text \<open>The state the simulation keeps: \<open>desksNum\<close> desks, each a
  well-formed ring of capacity \<open>QUEUE_CAPACITY\<close>, and the \<open>m\<close>
  passengers read.\<close>

definition airport_inv :: "int \<Rightarrow> nat \<Rightarrow> airport \<Rightarrow> bool" where
  "airport_inv desksNum m st \<longleftrightarrow> int (length (desks st)) = desksNum \<and> length (passengers st) = m \<and>
     (\<forall>d\<in>set (desks st). invV d \<and> qcapacity d = QUEUE_CAPACITY)"

text \<open>Each printed status lists every desk, with at most
  \<open>QUEUE_CAPACITY - 1\<close> passengers each.\<close>

definition status_ok :: "int \<Rightarrow> int \<Rightarrow> int \<times> string list list \<Rightarrow> bool" where
  "status_ok desksNum t0 = (\<lambda>(t, shown). t0 \<le> t \<and> t \<le> 100 \<and> length shown = nat desksNum \<and>
                                          (\<forall>ids\<in>set shown. length ids \<le> 2))"

text \<open>The state of \<open>main\<close> before the time loop.\<close>

definition airport_init :: "int \<Rightarrow> Passenger list \<Rightarrow> airport" where
  "airport_init desksNum ps =
     \<lparr>desks = replicate (nat desksNum) (createQueue_v QUEUE_CAPACITY), passengers = ps, rcalls = 0\<rparr>"

text \<open>\<open>main\<close> after reading its input: a desk count that is not positive
  makes \<open>Queue *desks[desksNum]\<close> undefined, and more than
  \<open>PASSENGERS_NUM\<close> passengers overflow \<open>passengers[10]\<close>.\<close>

definition airport_main :: "(nat \<Rightarrow> int) \<Rightarrow> int \<Rightarrow> Passenger list \<Rightarrow> (int \<times> string list list) list option" where
  "airport_main rand desksNum ps =
     (if desksNum \<le> 0 \<or> PASSENGERS_NUM < length ps then None
      else do {
        (_, out) \<leftarrow> time_loop rand desksNum 0 (airport_init desksNum ps);
        Some out
      })"


lemma smod_one [simp]: "(k::int) smod 1 = 0"
  by (simp add: signed_modulo_int_def)

lemma pick_idx2_Some_desks:
  assumes "pick_idx2 rand n i k = Some r"
  shows "n \<noteq> 1 \<or> i \<noteq> 0"
proof (rule pick_idx2.raw_induct [where P = "\<lambda>rd n i k r. n \<noteq> 1 \<or> i \<noteq> 0", OF _ assms])
  fix f :: "(nat \<Rightarrow> int) \<Rightarrow> int \<Rightarrow> int \<Rightarrow> nat \<Rightarrow> (int \<times> nat) option" and rd n i k r
  assume IH: "\<And>rd n i k r. f rd n i k = Some r \<Longrightarrow> n \<noteq> 1 \<or> i \<noteq> 0"
    and eq: "(let idx2 = rd k smod n in if i = idx2 then f rd n i (Suc k) else Some (idx2, Suc k)) = Some r"
  show "n \<noteq> 1 \<or> i \<noteq> 0"
    using IH [of rd n i "Suc k" r] eq by (auto split: if_splits)
qed

lemma pick_idx2_one_desk: "pick_idx2 rand 1 0 k = None"
  using pick_idx2_Some_desks [of rand 1 0 k] by (cases "pick_idx2 rand 1 0 k") auto

lemma arrive_one_one_desk:
  "arrive_one rand 1 t st i = (if ta (passengers st ! i) = t then None else Some (st, False))"
  by (simp add: arrive_one_def pick_idx2_one_desk)

lemma arrive_all_one_desk:
  "arrive_all rand 1 t st is = (if \<exists>i\<in>set is. ta (passengers st ! i) = t then None else Some (st, False))"
  by (induction "is") (auto simp: arrive_one_one_desk)

lemma serve_all_empty:
  "\<forall>i\<in>set is. isEmpty_v (desks st ! i) \<Longrightarrow> serve_all st is = Some (st, False)"
  by (induction "is") (auto simp: serve_one_def)

lemma time_loop_one_desk:
  assumes "isEmpty_v (desks st ! 0)" and "\<exists>p\<in>set (passengers st). t \<le> ta p \<and> ta p \<le> 100"
  shows "time_loop rand 1 t st = None"
  using assms(2)
proof (induction "nat (101 - t)" arbitrary: t)
  case 0
  then show ?case by auto
next
  case (Suc n)
  then obtain p where p: "p \<in> set (passengers st)" "t \<le> ta p" "ta p \<le> 100" by blast
  show ?case
  proof (cases "\<exists>i\<in>set [0..<length (passengers st)]. ta (passengers st ! i) = t")
    case True
    with p show ?thesis by (subst time_loop.simps) (simp add: arrive_all_one_desk)
  next
    case False
    then have "ta p \<noteq> t" using p(1) by (auto simp: in_set_conv_nth)
    with p have "\<exists>p\<in>set (passengers st). t + 1 \<le> ta p \<and> ta p \<le> 100"
      by (intro bexI [of _ p]) auto
    moreover have "n = nat (101 - (t + 1))" using Suc.hyps(2) by simp
    ultimately have "time_loop rand 1 (t + 1) st = None" using Suc.hyps(1) by blast
    moreover have "serve_all st [0] = Some (st, False)"
      using assms(1) by (intro serve_all_empty) simp
    ultimately show ?thesis using False p
      by (subst time_loop.simps) (simp add: arrive_all_one_desk del: serve_all.simps)
  qed
qed

subsection \<open>The desk choice\<close>

text \<open>\<open>rand()\<close> returns a value in \<open>[0, RAND_MAX]\<close>, so \<open>rand() % desksNum\<close>
  is a desk index.\<close>

lemma smod_nonneg_range:
  assumes "0 \<le> k" "0 < n"
  shows "0 \<le> (k::int) smod n" "k smod n < n"
  using assms by (simp_all add: signed_modulo_int_def sgn_if)

text \<open>The do-while returns as soon as some later \<open>rand()\<close> value differs
  from \<open>idx1\<close> modulo \<open>desksNum\<close>.\<close>

lemma pick_idx2_returns:
  assumes "k \<le> j" "rand j smod n \<noteq> i"
  shows "\<exists>j'. k \<le> j' \<and> rand j' smod n \<noteq> i \<and> pick_idx2 rand n i k = Some (rand j' smod n, Suc j')"
  using assms
proof (induction "j - k" arbitrary: k)
  case 0
  then have "j = k" by simp
  with 0 show ?case by (subst pick_idx2.simps) auto
next
  case (Suc d)
  show ?case
  proof (cases "rand k smod n = i")
    case False
    then show ?thesis by (subst pick_idx2.simps) auto
  next
    case True
    with Suc.prems have "Suc k \<le> j" by (cases "k = j") auto
    moreover have "d = j - Suc k" using Suc.hyps(2) by arith
    ultimately obtain j' where "Suc k \<le> j'" "rand j' smod n \<noteq> i"
        "pick_idx2 rand n i (Suc k) = Some (rand j' smod n, Suc j')"
      using Suc.hyps(1) Suc.prems(2) by blast
    with True show ?thesis by (subst pick_idx2.simps) (auto intro: Suc_leD)
  qed
qed

lemma airport_inv_desk:
  assumes "airport_inv n m st" "0 \<le> idx" "idx < n"
  shows "desk_at st idx = Some (desks st ! nat idx)" "invV (desks st ! nat idx)"
    "qcapacity (desks st ! nat idx) = QUEUE_CAPACITY"
proof -
  have l: "nat idx < length (desks st)" using assms by (auto simp: airport_inv_def)
  then show "desk_at st idx = Some (desks st ! nat idx)" using assms(2) by (simp add: desk_at_def)
  show "invV (desks st ! nat idx)" "qcapacity (desks st ! nat idx) = QUEUE_CAPACITY"
    using assms(1) nth_mem [OF l] by (auto simp: airport_inv_def)
qed

lemma airport_inv_upd:
  assumes "airport_inv n m st" "invV d'" "qcapacity d' = QUEUE_CAPACITY"
  shows "airport_inv n m (st\<lparr>desks := (desks st)[j := d']\<rparr>)"
  using assms set_update_subset_insert [of "desks st" j d'] by (auto simp: airport_inv_def)

subsection \<open>One arrival\<close>

lemma join_desk:
  assumes "invV d" "qcapacity d = QUEUE_CAPACITY"
  shows "isFull_v d = Some (\<not> length (absV d) < 2)"
    and "length (absV d) < 2 \<Longrightarrow>
           \<exists>d'. enqueue_v d p = Some d' \<and> invV d' \<and> qcapacity d' = QUEUE_CAPACITY \<and> absV d' = absV d @ [p]"
proof -
  have c: "unat (qcapacity d) = 3" using assms(2) by (simp add: QUEUE_CAPACITY_def)
  have l: "qlen_v d < 3" using qlen_lt [OF assms(1)] c by simp
  show "isFull_v d = Some (\<not> length (absV d) < 2)"
    using isFull_v_qlen [OF assms(1)] c l length_absV [of d] by auto
  assume "length (absV d) < 2"
  then have "Suc (qlen_v d) < unat (qcapacity d)" using c length_absV [of d] by simp
  then show "\<exists>d'. enqueue_v d p = Some d' \<and> invV d' \<and> qcapacity d' = QUEUE_CAPACITY \<and> absV d' = absV d @ [p]"
    using enqueue_v_abs [OF assms(1), of p] assms(2) by auto
qed

lemma qSize_v_less:
  "invV d1 \<Longrightarrow> invV d2 \<Longrightarrow> qSize_v d2 < qSize_v d1 \<longleftrightarrow> length (absV d2) < length (absV d1)"
  by (simp add: word_less_nat_alt qSize_v_qlen length_absV)

text \<open>A passenger whose arrival time has come joins the shorter of two
  distinct desks drawn at random (the first on a tie), at the back; when
  that desk is full, the arrival is postponed by one time unit.\<close>

lemma arrive_one_step:
  assumes inv: "airport_inv n m st" and n: "0 < n" and r0: "\<forall>k. 0 \<le> rand k"
    and fair: "\<forall>k. \<exists>j>k. rand j smod n \<noteq> rand k smod n" and i: "i < m"
  shows "\<exists>st' b. arrive_one rand n t st i = Some (st', b) \<and> airport_inv n m st' \<and>
     (ta (passengers st ! i) \<noteq> t \<longrightarrow> st' = st \<and> \<not> b) \<and>
     (ta (passengers st ! i) = t \<longrightarrow> (\<exists>idx1 idx2. 0 \<le> idx1 \<and> idx1 < n \<and> 0 \<le> idx2 \<and> idx2 < n \<and> idx1 \<noteq> idx2 \<and>
        (let idx = (if length (absV (desks st ! nat idx2)) < length (absV (desks st ! nat idx1)) then idx2 else idx1);
             d = desks st ! nat idx; p = passengers st ! i
         in if length (absV d) < 2
            then b \<and> passengers st' = passengers st \<and>
                 (\<exists>d'. desks st' = (desks st)[nat idx := d'] \<and> absV d' = absV d @ [p])
            else \<not> b \<and> desks st' = desks st \<and> passengers st' = (passengers st)[i := p\<lparr>ta := t + 1\<rparr>])))"
proof (cases "ta (passengers st ! i) = t")
  case False
  then show ?thesis using inv by (auto simp: arrive_one_def)
next
  case True
  define idx1 where "idx1 = rand (rcalls st) smod n"
  obtain j where "rcalls st < j" "rand j smod n \<noteq> idx1" using fair idx1_def by blast
  then obtain j' where j': "rand j' smod n \<noteq> idx1"
      and pk: "pick_idx2 rand n idx1 (Suc (rcalls st)) = Some (rand j' smod n, Suc j')"
    using pick_idx2_returns [of "Suc (rcalls st)" j rand n idx1] by auto
  define idx2 where "idx2 = rand j' smod n"
  have r: "0 \<le> idx1" "idx1 < n" "0 \<le> idx2" "idx2 < n"
    using smod_nonneg_range r0 n by (simp_all add: idx1_def idx2_def)
  define d1 d2 where "d1 = desks st ! nat idx1" and "d2 = desks st ! nat idx2"
  define idx where "idx = (if length (absV d2) < length (absV d1) then idx2 else idx1)"
  define p where "p = passengers st ! i"
  have ri: "0 \<le> idx" "idx < n" using r by (simp_all add: idx_def)
  note D1 = airport_inv_desk [OF inv r(1,2)] and D2 = airport_inv_desk [OF inv r(3,4)]
    and D = airport_inv_desk [OF inv ri]
  have sel: "(if qSize_v d2 < qSize_v d1 then idx2 else idx1) = idx"
    using qSize_v_less [OF D1(2) D2(2)] by (simp add: idx_def d1_def d2_def)
  have pre: "arrive_one rand n t st i =
      do {
        full \<leftarrow> isFull_v (desks st ! nat idx);
        if \<not> full then do {
          d' \<leftarrow> enqueue_v (desks st ! nat idx) (passengers st ! i);
          Some (st\<lparr>desks := (desks st)[nat idx := d'], rcalls := Suc j'\<rparr>, True)
        }
        else Some (st\<lparr>passengers := (passengers st)[i := (passengers st ! i)\<lparr>ta := ta (passengers st ! i) + 1\<rparr>], rcalls := Suc j'\<rparr>, False)
      }"
    using True pk D1(1) D2(1) D(1) sel
    by (simp add: arrive_one_def idx1_def [symmetric] idx2_def [symmetric] d1_def [symmetric]
        d2_def [symmetric])
  have idxeq: "(if length (absV (desks st ! nat idx2)) < length (absV (desks st ! nat idx1)) then idx2 else idx1) = idx"
    by (simp add: idx_def d1_def d2_def)
  have ne: "idx1 \<noteq> idx2" using j' by (simp add: idx2_def)
  show ?thesis
  proof (cases "length (absV (desks st ! nat idx)) < 2")
    case c: True
    obtain d' where e: "enqueue_v (desks st ! nat idx) p = Some d'" "invV d'" "qcapacity d' = QUEUE_CAPACITY"
        "absV d' = absV (desks st ! nat idx) @ [p]"
      using join_desk(2) [OF D(2,3) c] by blast
    define st' where "st' = st\<lparr>desks := (desks st)[nat idx := d'], rcalls := Suc j'\<rparr>"
    have A: "arrive_one rand n t st i = Some (st', True)"
      using pre join_desk(1) [OF D(2,3)] c e(1) by (simp add: st'_def p_def)
    have I: "airport_inv n m st'"
      using airport_inv_upd [OF inv e(2,3), of "nat idx"] by (simp add: airport_inv_def st'_def)
    have "let idx = (if length (absV (desks st ! nat idx2)) < length (absV (desks st ! nat idx1)) then idx2 else idx1);
             d = desks st ! nat idx; p = passengers st ! i
         in if length (absV d) < 2
            then True \<and> passengers st' = passengers st \<and>
                 (\<exists>d'. desks st' = (desks st)[nat idx := d'] \<and> absV d' = absV d @ [p])
            else \<not> True \<and> desks st' = desks st \<and> passengers st' = (passengers st)[i := p\<lparr>ta := t + 1\<rparr>]"
      unfolding idxeq Let_def using c e(4) by (auto simp: st'_def p_def)
    then show ?thesis using A I True r ne by blast
  next
    case c: False
    define st' where "st' = st\<lparr>passengers := (passengers st)[i := p\<lparr>ta := t + 1\<rparr>], rcalls := Suc j'\<rparr>"
    have A: "arrive_one rand n t st i = Some (st', False)"
      using pre join_desk(1) [OF D(2,3)] c True by (simp add: st'_def p_def)
    have I: "airport_inv n m st'"
      using inv by (simp add: airport_inv_def st'_def)
    have "let idx = (if length (absV (desks st ! nat idx2)) < length (absV (desks st ! nat idx1)) then idx2 else idx1);
             d = desks st ! nat idx; p = passengers st ! i
         in if length (absV d) < 2
            then False \<and> passengers st' = passengers st \<and>
                 (\<exists>d'. desks st' = (desks st)[nat idx := d'] \<and> absV d' = absV d @ [p])
            else \<not> False \<and> desks st' = desks st \<and> passengers st' = (passengers st)[i := p\<lparr>ta := t + 1\<rparr>]"
      unfolding idxeq Let_def using c by (simp add: st'_def p_def)
    then show ?thesis using A I True r ne by blast
  qed
qed

subsection \<open>One desk's service\<close>

text \<open>The front passenger of a non-empty desk has one unit less to wait,
  and leaves when that reaches zero; an empty desk is left alone.\<close>

lemma serve_one_step:
  assumes inv: "airport_inv n m st" and i: "i < length (desks st)"
  shows "\<exists>st' b. serve_one st i = Some (st', b) \<and> airport_inv n m st' \<and> passengers st' = passengers st \<and>
     (absV (desks st ! i) = [] \<longrightarrow> st' = st \<and> \<not> b) \<and>
     (absV (desks st ! i) \<noteq> [] \<longrightarrow> (let p = hd (absV (desks st ! i)) in b = (ts p - 1 = 0) \<and>
        (\<exists>d'. desks st' = (desks st)[i := d'] \<and>
              absV d' = (if ts p - 1 = 0 then tl (absV (desks st ! i))
                         else p\<lparr>ts := ts p - 1\<rparr> # tl (absV (desks st ! i))))))"
proof -
  define d where "d = desks st ! i"
  have d: "invV d" "qcapacity d = QUEUE_CAPACITY"
    using inv nth_mem [OF i] by (auto simp: airport_inv_def d_def)
  show ?thesis
  proof (cases "absV d = []")
    case True
    then have "isEmpty_v d" using isEmpty_v_qlen [OF d(1)] length_absV [of d] by simp
    then show ?thesis using inv True by (auto simp: serve_one_def d_def [symmetric])
  next
    case False
    then have ne: "0 < qlen_v d" using length_absV [of d] by (cases "absV d") auto
    then have em: "\<not> isEmpty_v d" using isEmpty_v_qlen [OF d(1)] by simp
    define p where "p = hd (absV d)"
    define p' where "p' = p\<lparr>ts := ts p - 1\<rparr>"
    define d1 where "d1 = d\<lparr>qdata := (qdata d)[unat (qhead d) := Some p']\<rparr>"
    have d1: "invV d1 \<and> absV d1 = p' # tl (absV d) \<and> qlen_v d1 = qlen_v d \<and> qcapacity d1 = qcapacity d"
      unfolding d1_def by (rule set_front_v [OF d(1) ne])
    have pre: "serve_one st i =
        (if ts p' = 0 then do { (_, d2) \<leftarrow> dequeue_v d1; Some (st\<lparr>desks := (desks st)[i := d2]\<rparr>, True) }
         else Some (st\<lparr>desks := (desks st)[i := d1]\<rparr>, False))"
      unfolding d1_def p'_def using em front_slot_v [OF d(1) ne]
      by (simp add: serve_one_def front_v_def d_def [symmetric] p_def [symmetric])
    show ?thesis
    proof (cases "ts p' = 0")
      case True
      define d2 where "d2 = d1\<lparr>qhead := (qhead d1 + 1) mod qcapacity d1\<rparr>"
      have "dequeue_v d1 = Some (Some (hd (absV d1)), d2) \<and> invV d2 \<and> absV d2 = tl (absV d1)"
        using dequeue_v_abs [of d1] d1 ne by (simp add: d2_def)
      moreover have "qcapacity d2 = QUEUE_CAPACITY" using d1 d(2) by (simp add: d2_def)
      ultimately show ?thesis
        using pre True d1 airport_inv_upd [OF inv, of d2 i] False
        by (auto simp: Let_def p_def [symmetric] p'_def d_def [symmetric])
    next
      case c: False
      show ?thesis
        using pre c d1 d(2) airport_inv_upd [OF inv, of d1 i] False
        by (auto simp: Let_def p_def [symmetric] p'_def d_def [symmetric])
    qed
  qed
qed

subsection \<open>The time loop returns\<close>

lemma arrive_all_step:
  assumes inv: "airport_inv n m st" and h: "0 < n" "\<forall>k. 0 \<le> rand k" "\<forall>k. \<exists>j>k. rand j smod n \<noteq> rand k smod n"
    and "is": "\<forall>i\<in>set is. i < m"
  shows "\<exists>st' b. arrive_all rand n t st is = Some (st', b) \<and> airport_inv n m st'"
  using inv "is"
proof (induction "is" arbitrary: st)
  case (Cons i "is")
  obtain st1 b1 where 1: "arrive_one rand n t st i = Some (st1, b1)" "airport_inv n m st1"
    using arrive_one_step [OF Cons.prems(1) h, of i t] Cons.prems(2) by auto
  obtain st2 b2 where "arrive_all rand n t st1 is = Some (st2, b2)" "airport_inv n m st2"
    using Cons.IH [OF 1(2)] Cons.prems(2) by auto
  with 1 show ?case by auto
qed auto

lemma serve_all_step:
  assumes "airport_inv n m st" and "\<forall>i\<in>set is. i < nat n"
  shows "\<exists>st' b. serve_all st is = Some (st', b) \<and> airport_inv n m st'"
  using assms
proof (induction "is" arbitrary: st)
  case (Cons i "is")
  have "i < length (desks st)" using Cons.prems by (auto simp: airport_inv_def)
  then obtain st1 b1 where 1: "serve_one st i = Some (st1, b1)" "airport_inv n m st1"
    using serve_one_step [OF Cons.prems(1)] by blast
  obtain st2 b2 where "serve_all st1 is = Some (st2, b2)" "airport_inv n m st2"
    using Cons.IH [OF 1(2)] Cons.prems(2) by auto
  with 1 show ?case by auto
qed auto

lemma those_map_Some: "(\<forall>x\<in>set xs. f x = Some (g x)) \<Longrightarrow> those (map f xs) = Some (map g xs)"
  by (induction xs) auto

lemma airport_inv_print:
  assumes "airport_inv n m st"
  shows "those (map printQueueState_v (desks st)) = Some (map (\<lambda>d. map pid (absV d)) (desks st))"
    and "\<forall>d\<in>set (desks st). length (absV d) \<le> 2"
proof -
  show "those (map printQueueState_v (desks st)) = Some (map (\<lambda>d. map pid (absV d)) (desks st))"
    using assms printLoop_v_abs [of _ "[]"]
    by (intro those_map_Some) (auto simp: airport_inv_def printQueueState_v_def)
  show "\<forall>d\<in>set (desks st). length (absV d) \<le> 2"
    using assms qlen_lt length_absV by (fastforce simp: airport_inv_def QUEUE_CAPACITY_def)
qed

lemma time_loop_step:
  assumes inv: "airport_inv n m st" and h: "0 < n" "\<forall>k. 0 \<le> rand k" "\<forall>k. \<exists>j>k. rand j smod n \<noteq> rand k smod n"
  shows "\<exists>st' out. time_loop rand n t st = Some (st', out) \<and> airport_inv n m st' \<and> list_all (status_ok n t) out"
  using inv
proof (induction "nat (101 - t)" arbitrary: t st)
  case 0
  then show ?case by (subst time_loop.simps) simp
next
  case (Suc k)
  obtain st1 a where 1: "arrive_all rand n t st [0..<length (passengers st)] = Some (st1, a)" "airport_inv n m st1"
    using arrive_all_step [OF Suc.prems h, of "[0..<length (passengers st)]" t] Suc.prems
    by (auto simp: airport_inv_def [of n m st])
  obtain st2 d where 2: "serve_all st1 [0..<nat n] = Some (st2, d)" "airport_inv n m st2"
    using serve_all_step [OF 1(2), of "[0..<nat n]"] by auto
  note P = airport_inv_print [OF 2(2)]
  obtain st3 rest where 3: "time_loop rand n (t + 1) st2 = Some (st3, rest)" "airport_inv n m st3"
      "list_all (status_ok n (t + 1)) rest"
  proof -
    have "k = nat (101 - (t + 1))" using Suc.hyps(2) by simp
    then show ?thesis using Suc.hyps(1) [of "t + 1" st2] 2(2) that by blast
  qed
  have l: "length (desks st2) = nat n" using 2(2) by (auto simp: airport_inv_def)
  have "list_all (status_ok n t) rest" using 3(3) by (auto simp: list_all_iff status_ok_def)
  moreover have "t \<le> 100" using Suc.hyps(2) by simp
  ultimately show ?case
    using 1 2 3 P l by (subst time_loop.simps) (auto simp: status_ok_def)
qed

lemma airport_init_inv:
  "0 < n \<Longrightarrow> airport_inv n (length ps) (airport_init n ps)"
  using createQueue_v_inv [of QUEUE_CAPACITY]
  by (simp add: airport_inv_def airport_init_def QUEUE_CAPACITY_def createQueue_v_def)

lemma int_smod_2_alternates: "\<forall>k. \<exists>j>k. int j smod 2 \<noteq> int k smod 2"
proof
  fix k
  have "int (Suc k) mod 2 \<noteq> int k mod 2" by presburger
  then show "\<exists>j>k. int j smod 2 \<noteq> int k smod 2"
    by (intro exI [of _ "Suc k"]) (simp add: signed_modulo_int_def)
qed

lemma isEmpty_v_createQueue_v [simp]: "isEmpty_v (createQueue_v c)"
  by (simp add: isEmpty_v_def createQueue_v_def)

text \<open>The simulation runs: two desks, two passengers arriving at time 0;
  \<open>p2\<close> is served within the step it arrives in, \<open>p1\<close> leaves at time 1.\<close>

lemma airport_two_desks_demo:
  "airport_main (\<lambda>k. int k) 2 [demo_passenger, \<lparr>pid = ''p2'', ta = 0, ts = 1\<rparr>]
     = Some [(0, [[''p1''], []]), (1, [[], []])]"
  by code_simp

text \<open>C21 (the simulation returns). When \<open>rand()\<close> keeps drawing different
  desks modulo \<open>desksNum\<close> (its values never settle on one residue),
  \<open>main\<close> with a positive number of desks and at most \<open>PASSENGERS_NUM\<close>
  passengers finishes its 101 time steps; every status it prints is for a
  time in \<open>[0, 100]\<close>, lists every desk and at most two passengers per
  desk.\<close>

theorem airport_main_returns:
  assumes "0 < desksNum" and "length ps \<le> PASSENGERS_NUM" and "\<forall>k. 0 \<le> rand k"
    and "\<forall>k. \<exists>j>k. rand j smod desksNum \<noteq> rand k smod desksNum"
  shows "\<exists>out. airport_main rand desksNum ps = Some out \<and> list_all (status_ok desksNum 0) out"
proof -
  obtain st' out where "time_loop rand desksNum 0 (airport_init desksNum ps) = Some (st', out)"
      "list_all (status_ok desksNum 0) out"
    using time_loop_step [OF airport_init_inv [OF assms(1)] assms(1,3,4), of 0] by blast
  then show ?thesis using assms(1,2) by (simp add: airport_main_def airport_init_def PASSENGERS_NUM_def)
qed

theorem airport_main_returns_witness:
  "0 < (2::int) \<and> length [demo_passenger] \<le> PASSENGERS_NUM \<and> (\<forall>k. 0 \<le> int k) \<and>
   (\<forall>k. \<exists>j>k. int j smod 2 \<noteq> int k smod 2) \<and>
   (\<exists>out. airport_main int 2 [demo_passenger] = Some out \<and> list_all (status_ok 2 0) out)"
  using airport_main_returns [of 2 "[demo_passenger]" int] int_smod_2_alternates
  by (simp add: PASSENGERS_NUM_def)



text \<open>C23 (service of a desk). On a non-empty desk the front passenger's
  remaining service time \<open>ts\<close> goes down by one; at zero the passenger
  leaves the queue and the step reports a deletion. The rest of the queue
  and the passengers' array are unchanged, and the desks stay well-formed.\<close>

theorem serve_one_front:
  assumes "airport_inv n m st" and "i < length (desks st)" and "absV (desks st ! i) \<noteq> []"
  shows "\<exists>st' d'. serve_one st i = Some (st', ts (hd (absV (desks st ! i))) - 1 = 0) \<and>
     airport_inv n m st' \<and> passengers st' = passengers st \<and> desks st' = (desks st)[i := d'] \<and>
     absV d' = (let p = hd (absV (desks st ! i)) in
                if ts p - 1 = 0 then tl (absV (desks st ! i)) else p\<lparr>ts := ts p - 1\<rparr> # tl (absV (desks st ! i)))"
  using serve_one_step [OF assms(1,2)] assms(3) by (auto simp: Let_def)

theorem serve_one_front_witness:
  "airport_inv 1 0 \<lparr>desks = [demo_qv], passengers = [], rcalls = 0\<rparr> \<and> absV demo_qv = [demo_passenger] \<and>
   (\<exists>st' d'. serve_one \<lparr>desks = [demo_qv], passengers = [], rcalls = 0\<rparr> 0 = Some (st', False) \<and>
      desks st' = [d'] \<and> absV d' = [demo_passenger\<lparr>ts := 1\<rparr>])"
proof -
  have i: "airport_inv 1 0 \<lparr>desks = [demo_qv], passengers = [], rcalls = 0\<rparr>"
  proof -
    have "invV demo_qv \<and> qcapacity demo_qv = 3" by code_simp
    then show ?thesis by (simp add: airport_inv_def QUEUE_CAPACITY_def)
  qed
  have a: "absV demo_qv = [demo_passenger]" by code_simp
  show ?thesis
    using serve_one_front [OF i, of 0] i a by (auto simp: demo_passenger_def)
qed

text \<open>C24: with a single desk, \<open>main\<close> never finishes once a passenger
  arrives within the simulated time: \<open>rand() % 1\<close> is always 0, so the
  loop choosing a second desk different from the first never exits.\<close>

theorem airport_one_desk_hangs:
  "(\<exists>p\<in>set ps. 0 \<le> ta p \<and> ta p \<le> 100) \<Longrightarrow> airport_main rand 1 ps = None"
  by (simp add: airport_main_def airport_init_def PASSENGERS_NUM_def time_loop_one_desk)

theorem airport_one_desk_hangs_witness:
  "(\<exists>p\<in>set [demo_passenger]. 0 \<le> ta p \<and> ta p \<le> 100) \<and> airport_main (\<lambda>k. int k) 1 [demo_passenger] = None"
  using airport_one_desk_hangs [of "[demo_passenger]" "\<lambda>k. int k"] by (simp add: demo_passenger_def)

end
