(* ===== verification/QueueList.thy ===== *)
theory QueueList
  imports QueueSpec
begin

text \<open>
  The linked-list queue of \<open>src/AaDS/2_/queue_list.c\<close>. Nodes live in a
  store from addresses to records; a \<open>Queue\<close> struct lives either on the
  heap (\<open>createQueue\<close>) or in a local variable of a function
  (\<open>printQueueState\<close>'s \<open>tempQueue\<close>, \<open>copyQueue\<close>'s \<open>newQueue\<close>),
  so the operations, which take a \<open>Queue *\<close>, take the location of the
  struct. \<open>malloc\<close> hands out the next fresh address and is assumed to
  succeed; \<open>free\<close> of an address that holds no block, or of a local
  variable, is undefined behaviour (\<open>None\<close>).
\<close>

record NodeQ =
  qinfo :: Passenger
  qnext :: "ptr option"

record QueueL =
  lhead :: "ptr option"
  ltail :: "ptr option"

datatype qloc = QHeap ptr | QLocal nat

record lst =
  qnodes :: "ptr \<rightharpoonup> NodeQ"
  qobjs :: "qloc \<rightharpoonup> QueueL"
  lfresh :: ptr

definition emptyQueueL :: QueueL where
  "emptyQueueL = \<lparr>lhead = None, ltail = None\<rparr>"

definition createQueue_l :: "lst \<Rightarrow> qloc \<times> lst" where
  "createQueue_l s =
     (QHeap (lfresh s), s\<lparr>qobjs := (qobjs s)(QHeap (lfresh s) \<mapsto> emptyQueueL), lfresh := Suc (lfresh s)\<rparr>)"

definition isEmpty_l :: "lst \<Rightarrow> qloc \<Rightarrow> bool option" where
  "isEmpty_l s l = do { q \<leftarrow> qobjs s l; Some (lhead q = None) }"

definition isFull_l :: "lst \<Rightarrow> qloc \<Rightarrow> bool" where
  "isFull_l s l = False"

definition allocNodeQ :: "lst \<Rightarrow> NodeQ \<Rightarrow> ptr \<times> lst" where
  "allocNodeQ s n = (lfresh s, s\<lparr>qnodes := (qnodes s)(lfresh s \<mapsto> n), lfresh := Suc (lfresh s)\<rparr>)"

definition freeNodeQ :: "lst \<Rightarrow> ptr \<Rightarrow> lst option" where
  "freeNodeQ s p = (if p \<in> dom (qnodes s) then Some (s\<lparr>qnodes := (qnodes s)(p := None)\<rparr>) else None)"

definition enqueue_l :: "lst \<Rightarrow> qloc \<Rightarrow> Passenger \<Rightarrow> lst option" where
  "enqueue_l s l info =
     (let (newNode, s1) = allocNodeQ s \<lparr>qinfo = info, qnext = None\<rparr> in
      do {
        q \<leftarrow> qobjs s1 l;
        if lhead q = None
        then Some (s1\<lparr>qobjs := (qobjs s1)(l \<mapsto> q\<lparr>lhead := Some newNode, ltail := Some newNode\<rparr>)\<rparr>)
        else do {
          tp \<leftarrow> ltail q;
          tn \<leftarrow> qnodes s1 tp;
          Some (s1\<lparr>qnodes := (qnodes s1)(tp \<mapsto> tn\<lparr>qnext := Some newNode\<rparr>),
                   qobjs := (qobjs s1)(l \<mapsto> q\<lparr>ltail := Some newNode\<rparr>)\<rparr>)
        }
      })"

text \<open>\<open>dequeue\<close>: the passenger copied to \<open>*info\<close>, \<open>None\<close> on underflow.\<close>

definition dequeue_l :: "lst \<Rightarrow> qloc \<Rightarrow> (Passenger option \<times> lst) option" where
  "dequeue_l s l =
     do {
       q \<leftarrow> qobjs s l;
       case lhead q of
         None \<Rightarrow> Some (None, s)
       | Some temp \<Rightarrow> do {
           n \<leftarrow> qnodes s temp;
           let q1 = q\<lparr>lhead := qnext n, ltail := (if qnext n = None then None else ltail q)\<rparr>;
           s1 \<leftarrow> freeNodeQ (s\<lparr>qobjs := (qobjs s)(l \<mapsto> q1)\<rparr>) temp;
           Some (Some (qinfo n), s1)
         }
     }"

partial_function (option) qcount :: "(ptr \<rightharpoonup> NodeQ) \<Rightarrow> ptr option \<Rightarrow> nat \<Rightarrow> nat option" where
  "qcount h cur sz =
     (case cur of
       None \<Rightarrow> Some sz
     | Some p \<Rightarrow> do { n \<leftarrow> h p; qcount h (qnext n) (Suc sz) })"

text \<open>\<open>qSize\<close> counts in an \<open>int\<close>; the model counts in \<open>nat\<close>, which
  agrees below \<open>2^31\<close> nodes.\<close>

definition qSize_l :: "lst \<Rightarrow> qloc \<Rightarrow> nat option" where
  "qSize_l s l = do { q \<leftarrow> qobjs s l; qcount (qnodes s) (lhead q) 0 }"

definition front_l :: "lst \<Rightarrow> qloc \<Rightarrow> ptr option option" where
  "front_l s l = do { q \<leftarrow> qobjs s l; Some (lhead q) }"

text \<open>\<open>free(q)\<close> on the struct: only a heap block may be freed.\<close>

definition freeQueueObj :: "lst \<Rightarrow> qloc \<Rightarrow> lst option" where
  "freeQueueObj s l =
     (case l of
       QHeap p \<Rightarrow> if l \<in> dom (qobjs s) then Some (s\<lparr>qobjs := (qobjs s)(l := None)\<rparr>) else None
     | QLocal _ \<Rightarrow> None)"

partial_function (option) drain_l :: "lst \<Rightarrow> qloc \<Rightarrow> lst option" where
  "drain_l s l =
     do {
       e \<leftarrow> isEmpty_l s l;
       if e then Some s else do { (_, s') \<leftarrow> dequeue_l s l; drain_l s' l }
     }"

definition destroyQueue_l :: "lst \<Rightarrow> qloc \<Rightarrow> lst option" where
  "destroyQueue_l s l = do { s' \<leftarrow> drain_l s l; freeQueueObj s' l }"

text \<open>\<open>copyQueue\<close> builds the copy in its local \<open>newQueue\<close> (\<open>QLocal 1\<close>)
  and returns the struct by value.\<close>

partial_function (option) copyLoop_l :: "lst \<Rightarrow> ptr option \<Rightarrow> lst option" where
  "copyLoop_l s cur =
     (case cur of
       None \<Rightarrow> Some s
     | Some p \<Rightarrow> do {
         n \<leftarrow> qnodes s p;
         s' \<leftarrow> enqueue_l s (QLocal 1) (qinfo n);
         n' \<leftarrow> qnodes s' p;
         copyLoop_l s' (qnext n')
       })"

definition copyQueue_l :: "lst \<Rightarrow> qloc \<Rightarrow> (QueueL \<times> lst) option" where
  "copyQueue_l s l =
     do {
       q \<leftarrow> qobjs s l;
       s1 \<leftarrow> copyLoop_l (s\<lparr>qobjs := (qobjs s)(QLocal 1 \<mapsto> emptyQueueL)\<rparr>) (lhead q);
       c \<leftarrow> qobjs s1 (QLocal 1);
       Some (c, s1\<lparr>qobjs := (qobjs s1)(QLocal 1 := None)\<rparr>)
     }"

text \<open>\<open>printQueueState\<close> drains a copy held in its local \<open>tempQueue\<close>
  (\<open>QLocal 0\<close>), printing each id, then calls \<open>destroyQueue\<close> on the
  local.\<close>

partial_function (option) printLoop_l :: "lst \<Rightarrow> qloc \<Rightarrow> string list \<Rightarrow> (string list \<times> lst) option" where
  "printLoop_l s l out =
     do {
       e \<leftarrow> isEmpty_l s l;
       if e then Some (out, s)
       else do {
         (p, s') \<leftarrow> dequeue_l s l;
         info \<leftarrow> p;
         printLoop_l s' l (out @ [pid info])
       }
     }"

definition printQueueState_l :: "lst \<Rightarrow> qloc \<Rightarrow> (string list \<times> lst) option" where
  "printQueueState_l s l =
     do {
       (c, s1) \<leftarrow> copyQueue_l s l;
       (out, s2) \<leftarrow> printLoop_l (s1\<lparr>qobjs := (qobjs s1)(QLocal 0 \<mapsto> c)\<rparr>) (QLocal 0) [];
       s3 \<leftarrow> destroyQueue_l s2 (QLocal 0);
       Some (out, s3\<lparr>qobjs := (qobjs s3)(QLocal 0 := None)\<rparr>)
     }"

declare qcount.simps [code] drain_l.simps [code] copyLoop_l.simps [code] printLoop_l.simps [code]

subsection \<open>Invariant and abstraction\<close>

text \<open>The chain of node addresses from \<open>p\<close> to \<open>NULL\<close>; it does not return
  on a cyclic chain.\<close>

partial_function (option) qchain :: "(ptr \<rightharpoonup> NodeQ) \<Rightarrow> ptr option \<Rightarrow> ptr list option" where
  "qchain h p =
     (case p of
       None \<Rightarrow> Some []
     | Some x \<Rightarrow> do { n \<leftarrow> h x; xs \<leftarrow> qchain h (qnext n); Some (x # xs) })"

declare qchain.simps [code]

text \<open>A segment of the chain: from \<open>p\<close> along the addresses \<open>xs\<close> to the
  pointer \<open>q\<close> (the \<open>Path\<close> of the pointer examples of HOL/Hoare).\<close>

primrec qseg :: "(ptr \<rightharpoonup> NodeQ) \<Rightarrow> ptr option \<Rightarrow> ptr list \<Rightarrow> ptr option \<Rightarrow> bool" where
  "qseg h p [] q = (p = q)"
| "qseg h p (x # xs) q = (p = Some x \<and> (case h x of None \<Rightarrow> False | Some n \<Rightarrow> qseg h (qnext n) xs q))"

text \<open>Every address from \<open>lfresh\<close> on is unallocated.\<close>

definition heap_wf :: "lst \<Rightarrow> bool" where
  "heap_wf s = (\<forall>p. lfresh s \<le> p \<longrightarrow> qnodes s p = None)"

definition invL :: "lst \<Rightarrow> qloc \<Rightarrow> bool" where
  "invL s l =
     (heap_wf s \<and>
      (case qobjs s l of
        None \<Rightarrow> False
      | Some q \<Rightarrow> (case qchain (qnodes s) (lhead q) of
          None \<Rightarrow> False
        | Some ps \<Rightarrow> distinct ps \<and> ltail q = (if ps = [] then None else Some (last ps)))))"

definition absL :: "lst \<Rightarrow> qloc \<Rightarrow> Passenger list option" where
  "absL s l =
     do {
       q \<leftarrow> qobjs s l;
       ps \<leftarrow> qchain (qnodes s) (lhead q);
       Some (map (\<lambda>p. qinfo (the (qnodes s p))) ps)
     }"

text \<open>A heap queue holding one passenger, for the concrete runs below.\<close>

definition demo_lst :: lst where
  "demo_lst = the (enqueue_l (snd (createQueue_l \<lparr>qnodes = Map.empty, qobjs = Map.empty, lfresh = 0\<rparr>)) (QHeap 0) demo_passenger)"

subsection \<open>Chains\<close>

lemma qseg_qchain: "qseg h p ps None \<Longrightarrow> qchain h p = Some ps"
  by (induction ps arbitrary: p) (subst qchain.simps, auto split: option.splits)+

lemma qchain_qseg:
  assumes "qchain h p = Some ps"
  shows "qseg h p ps None"
proof (rule qchain.raw_induct [where P = "\<lambda>h p ps. qseg h p ps None", OF _ assms])
  fix f :: "(ptr \<rightharpoonup> NodeQ) \<Rightarrow> ptr option \<Rightarrow> ptr list option" and h p ps
  assume IH: "\<And>h p ps. f h p = Some ps \<Longrightarrow> qseg h p ps None"
    and eq: "(case p of None \<Rightarrow> Some []
              | Some x \<Rightarrow> h x \<bind> (\<lambda>n. f h (qnext n) \<bind> (\<lambda>xs. Some (x # xs)))) = Some ps"
  show "qseg h p ps None" using eq IH by (auto split: option.splits)
qed

lemma qseg_append: "qseg h p (xs @ ys) q = (\<exists>r. qseg h p xs r \<and> qseg h r ys q)"
  by (induction xs arbitrary: p) (auto split: option.splits)

lemma qseg_snoc: "qseg h p (xs @ [y]) q = (qseg h p xs (Some y) \<and> (\<exists>n. h y = Some n \<and> qnext n = q))"
  by (auto simp: qseg_append split: option.splits)

lemma qseg_dom: "qseg h p ps q \<Longrightarrow> x \<in> set ps \<Longrightarrow> x \<in> dom h"
  by (induction ps arbitrary: p) (auto split: option.splits)

lemma qseg_upd: "x \<notin> set ps \<Longrightarrow> qseg (h(x := v)) p ps q = qseg h p ps q"
  by (induction ps arbitrary: p) (auto split: option.splits)

lemma qchain_Some_iff: "qchain h p = Some ps \<longleftrightarrow> qseg h p ps None"
  using qseg_qchain qchain_qseg by blast

lemma invL_qseg:
  "invL s l \<longleftrightarrow> heap_wf s \<and> (\<exists>q ps. qobjs s l = Some q \<and> qseg (qnodes s) (lhead q) ps None \<and> distinct ps \<and>
                       ltail q = (if ps = [] then None else Some (last ps)))"
proof (cases "qobjs s l")
  case None
  then show ?thesis by (simp add: invL_def)
next
  case (Some q)
  then show ?thesis
    by (cases "qchain (qnodes s) (lhead q)") (auto simp: invL_def qchain_Some_iff [symmetric])
qed

lemma absL_qseg:
  "qobjs s l = Some q \<Longrightarrow> qseg (qnodes s) (lhead q) ps None \<Longrightarrow>
   absL s l = Some (map (\<lambda>p. qinfo (the (qnodes s p))) ps)"
  by (simp add: absL_def qseg_qchain)

lemma heap_wf_fresh: "heap_wf s \<Longrightarrow> x \<in> dom (qnodes s) \<Longrightarrow> x < lfresh s"
  by (metis domIff heap_wf_def not_le)

lemma qseg_snoc_upd:
  assumes "qseg h p (bs @ [t]) None" "distinct (bs @ [t])" "f \<notin> set (bs @ [t])" "h t = Some n" "qnext m = None"
  shows "qseg (h(f \<mapsto> m, t \<mapsto> n\<lparr>qnext := Some f\<rparr>)) p (bs @ [t, f]) None"
proof -
  have bs: "qseg h p bs (Some t)" using assms(1) by (simp add: qseg_snoc)
  have "t \<notin> set bs" "f \<notin> set bs" "f \<noteq> t" using assms(2,3) by auto
  then have "qseg (h(f \<mapsto> m, t \<mapsto> n\<lparr>qnext := Some f\<rparr>)) p bs (Some t)"
    using bs by (simp add: qseg_upd)
  then show ?thesis using \<open>f \<noteq> t\<close> assms(5) qseg_snoc [of _ p "bs @ [t]" f None] qseg_snoc [of _ p bs t "Some f"]
    by simp
qed

lemma map_qinfo_upd:
  assumes "f \<notin> set ps" "t \<in> set ps \<Longrightarrow> h t = Some n"
  shows "map (\<lambda>p. qinfo (the ((h(f \<mapsto> m, t \<mapsto> n\<lparr>qnext := Some f\<rparr>)) p))) ps = map (\<lambda>p. qinfo (the (h p))) ps"
  using assms by (auto intro!: map_cong)

lemma enqueue_l_abs:
  assumes i: "invL s l" and a: "absL s l = Some xs"
  shows "\<exists>s'. enqueue_l s l x = Some s' \<and> invL s' l \<and> absL s' l = Some (xs @ [x])"
proof -
  obtain q ps where q: "qobjs s l = Some q" and seg: "qseg (qnodes s) (lhead q) ps None"
    and d: "distinct ps" and t: "ltail q = (if ps = [] then None else Some (last ps))"
    and wf: "heap_wf s"
    using i by (auto simp: invL_qseg)
  let ?h = "qnodes s" and ?f = "lfresh s" and ?m = "\<lparr>qinfo = x, qnext = None\<rparr>"
  have xs: "xs = map (\<lambda>p. qinfo (the (?h p))) ps" using absL_qseg [OF q seg] a by simp
  have fresh: "?f \<notin> set ps" using qseg_dom [OF seg] heap_wf_fresh [OF wf] by blast
  have hf: "?h ?f = None" using wf by (simp add: heap_wf_def)
  have wf_step: "\<forall>p. Suc ?f \<le> p \<longrightarrow> (?h(?f \<mapsto> ?m)) p = None" using wf by (simp add: heap_wf_def)
  show ?thesis
  proof (cases ps)
    case Nil
    then have "lhead q = None" using seg by simp
    then have e: "enqueue_l s l x = Some (s\<lparr>qnodes := ?h(?f \<mapsto> ?m), lfresh := Suc ?f,
                     qobjs := (qobjs s)(l \<mapsto> q\<lparr>lhead := Some ?f, ltail := Some ?f\<rparr>)\<rparr>)"
      using q by (simp add: enqueue_l_def allocNodeQ_def)
    let ?s' = "s\<lparr>qnodes := ?h(?f \<mapsto> ?m), lfresh := Suc ?f,
                     qobjs := (qobjs s)(l \<mapsto> q\<lparr>lhead := Some ?f, ltail := Some ?f\<rparr>)\<rparr>"
    have seg': "qseg (qnodes ?s') (Some ?f) [?f] None" by simp
    have abs: "absL ?s' l = Some [x]" using absL_qseg [of ?s' l _ "[?f]"] seg' by simp
    have wf': "heap_wf ?s'" using wf_step by (simp add: heap_wf_def)
    have "\<exists>q' ps'. qobjs ?s' l = Some q' \<and> qseg (qnodes ?s') (lhead q') ps' None \<and> distinct ps' \<and>
                      ltail q' = (if ps' = [] then None else Some (last ps'))"
      using seg' by (intro exI [of _ "q\<lparr>lhead := Some ?f, ltail := Some ?f\<rparr>"] exI [of _ "[?f]"]) simp
    then have "invL ?s' l" using wf' by (simp only: invL_qseg)
    then show ?thesis using e xs Nil abs by simp
  next
    case (Cons y ys)
    obtain bs tl where ps: "ps = bs @ [tl]" using Cons by (metis append_butlast_last_id list.distinct(1))
    then obtain hv where hd: "lhead q = Some hv" using seg by (cases bs) auto
    obtain n where n: "?h tl = Some n" "qnext n = None" using seg ps by (auto simp: qseg_snoc)
    have ftl: "?f \<noteq> tl" using fresh ps by simp
    let ?h' = "?h(?f \<mapsto> ?m, tl \<mapsto> n\<lparr>qnext := Some ?f\<rparr>)"
    have e: "enqueue_l s l x = Some (s\<lparr>qnodes := ?h', lfresh := Suc ?f,
                     qobjs := (qobjs s)(l \<mapsto> q\<lparr>ltail := Some ?f\<rparr>)\<rparr>)"
      using q hd t ps n ftl by (simp add: enqueue_l_def allocNodeQ_def)
    have seg': "qseg ?h' (lhead q) (ps @ [?f]) None"
      using qseg_snoc_upd [of _ _ bs tl] seg d fresh n ps by simp
    have wf': "\<forall>p. Suc ?f \<le> p \<longrightarrow> ?h' p = None"
      using wf_step heap_wf_fresh [OF wf, of tl] n by auto
    have "map (\<lambda>p. qinfo (the (?h' p))) ps = xs"
      using map_qinfo_upd [OF fresh, of tl ?h n] n xs by simp
    then have "absL (s\<lparr>qnodes := ?h', lfresh := Suc ?f, qobjs := (qobjs s)(l \<mapsto> q\<lparr>ltail := Some ?f\<rparr>)\<rparr>) l = Some (xs @ [x])"
      using absL_qseg [of _ l "q\<lparr>ltail := Some ?f\<rparr>" "ps @ [?f]"] seg' ftl by simp
    moreover have "invL (s\<lparr>qnodes := ?h', lfresh := Suc ?f, qobjs := (qobjs s)(l \<mapsto> q\<lparr>ltail := Some ?f\<rparr>)\<rparr>) l"
      using seg' wf' d fresh by (auto simp: invL_qseg heap_wf_def)
    ultimately show ?thesis using e by simp
  qed
qed

lemma qseg_Nil_iff: "qseg h p ps None \<Longrightarrow> p = None \<longleftrightarrow> ps = []"
  by (cases ps) auto

lemma dequeue_l_abs:
  assumes i: "invL s l" and a: "absL s l = Some xs"
  shows "\<exists>s'. dequeue_l s l = Some (snd (qspec_step Deq xs), s') \<and> invL s' l \<and>
              absL s' l = Some (fst (qspec_step Deq xs))"
proof -
  obtain q ps where q: "qobjs s l = Some q" and seg: "qseg (qnodes s) (lhead q) ps None"
    and d: "distinct ps" and t: "ltail q = (if ps = [] then None else Some (last ps))"
    and wf: "heap_wf s"
    using i by (auto simp: invL_qseg)
  let ?h = "qnodes s"
  have xs: "xs = map (\<lambda>p. qinfo (the (?h p))) ps" using absL_qseg [OF q seg] a by simp
  show ?thesis
  proof (cases ps)
    case Nil
    then show ?thesis using seg q xs i a by (simp add: dequeue_l_def)
  next
    case (Cons y ys)
    obtain n where hd: "lhead q = Some y" and n: "?h y = Some n" and seg1: "qseg ?h (qnext n) ys None"
      using seg Cons by (auto split: option.splits)
    have y: "y \<notin> set ys" using d Cons by simp
    let ?q1 = "q\<lparr>lhead := qnext n, ltail := (if qnext n = None then None else ltail q)\<rparr>"
    let ?s' = "s\<lparr>qobjs := (qobjs s)(l \<mapsto> ?q1), qnodes := ?h(y := None)\<rparr>"
    have e: "dequeue_l s l = Some (Some (qinfo n), ?s')"
      using q hd n by (simp add: dequeue_l_def freeNodeQ_def Let_def domIff)
    have seg': "qseg (qnodes ?s') (lhead ?q1) ys None" using seg1 y by (simp add: qseg_upd)
    have tl': "ltail ?q1 = (if ys = [] then None else Some (last ys))"
      using qseg_Nil_iff [OF seg1] t Cons by auto
    have wf': "heap_wf ?s'" using wf by (simp add: heap_wf_def)
    have "\<exists>q' ps'. qobjs ?s' l = Some q' \<and> qseg (qnodes ?s') (lhead q') ps' None \<and> distinct ps' \<and>
                   ltail q' = (if ps' = [] then None else Some (last ps'))"
      using seg' tl' d Cons by (intro exI [of _ ?q1] exI [of _ ys]) simp
    then have inv: "invL ?s' l" using wf' by (simp only: invL_qseg)
    have "map (\<lambda>p. qinfo (the ((?h(y := None)) p))) ys = map (\<lambda>p. qinfo (the (?h p))) ys"
      using y by (auto intro!: map_cong)
    then have "absL ?s' l = Some (tl xs)"
      using absL_qseg [of ?s' l ?q1 ys] seg' xs Cons by simp
    moreover have "hd xs = qinfo n" using xs Cons n by simp
    ultimately show ?thesis using e inv xs Cons by auto
  qed
qed

lemma qcount_qseg: "qseg h p ps None \<Longrightarrow> qcount h p k = Some (k + length ps)"
proof (induction ps arbitrary: p k)
  case Nil
  then show ?case by (subst qcount.simps) simp
next
  case (Cons x xs)
  then obtain n where "p = Some x" "h x = Some n" "qseg h (qnext n) xs None" by (auto split: option.splits)
  then show ?case using Cons.IH by (subst qcount.simps) simp
qed

lemma destroyQueue_l_local: "destroyQueue_l s (QLocal k) = None"
  by (cases "drain_l s (QLocal k)") (simp_all add: destroyQueue_l_def freeQueueObj_def)

lemma createQueue_l_inv:
  assumes "heap_wf s" "createQueue_l s = (l, s')"
  shows "invL s' l \<and> absL s' l = Some []"
proof -
  have s': "l = QHeap (lfresh s)" "qobjs s' l = Some emptyQueueL" "qnodes s' = qnodes s" "lfresh s' = Suc (lfresh s)"
    using assms(2) by (auto simp: createQueue_l_def)
  then have "heap_wf s'" using assms(1) by (simp add: heap_wf_def)
  then show ?thesis using s' by (simp add: invL_def absL_def emptyQueueL_def qchain.simps)
qed

lemma demo_lst_inv: "invL demo_lst (QHeap 0) \<and> absL demo_lst (QHeap 0) = Some [demo_passenger]"
proof -
  have "heap_wf demo_lst" by (simp add: heap_wf_def demo_lst_def createQueue_l_def enqueue_l_def allocNodeQ_def emptyQueueL_def)
  moreover have "qchain (qnodes demo_lst) (Some 1) = Some [1]"
    by (simp add: demo_lst_def createQueue_l_def enqueue_l_def allocNodeQ_def emptyQueueL_def qchain.simps)
  ultimately show ?thesis
    by (simp add: invL_def absL_def demo_lst_def createQueue_l_def enqueue_l_def allocNodeQ_def emptyQueueL_def)
qed

subsection \<open>Properties\<close>

text \<open>C17 (list enqueue refines the list queue). On a queue whose chain is a well-formed list ending at \<open>tail\<close>, \<open>enqueue\<close> returns, keeps the invariant and appends the passenger to the abstract queue.\<close>

theorem enqueue_l_refines:
  assumes "invL s l" and "absL s l = Some xs"
  shows "\<exists>s'. enqueue_l s l x = Some s' \<and> invL s' l \<and> absL s' l = Some (fst (qspec_step (Enq x) xs))"
  using enqueue_l_abs [OF assms] by simp

theorem enqueue_l_refines_witness:
  "\<exists>s'. enqueue_l demo_lst (QHeap 0) demo_passenger = Some s' \<and> invL s' (QHeap 0) \<and>
        absL s' (QHeap 0) = Some [demo_passenger, demo_passenger]"
  using enqueue_l_refines [of demo_lst "QHeap 0" "[demo_passenger]" demo_passenger] demo_lst_inv by simp

text \<open>C18 (list dequeue refines the list queue). On a well-formed queue, \<open>dequeue\<close> returns the front passenger (nothing on underflow), frees its node, keeps the invariant and removes the front of the abstract queue.\<close>

theorem dequeue_l_refines:
  assumes "invL s l" and "absL s l = Some xs"
  shows "\<exists>s'. dequeue_l s l = Some (snd (qspec_step Deq xs), s') \<and> invL s' l \<and>
              absL s' l = Some (fst (qspec_step Deq xs))"
  using dequeue_l_abs [OF assms] .

theorem dequeue_l_refines_witness:
  "\<exists>s'. dequeue_l demo_lst (QHeap 0) = Some (Some demo_passenger, s') \<and> absL s' (QHeap 0) = Some []"
  using dequeue_l_refines [of demo_lst "QHeap 0" "[demo_passenger]"] demo_lst_inv by auto

text \<open>C19 (printing a list queue is undefined). \<open>printQueueState\<close> ends with \<open>destroyQueue(&tempQueue)\<close>, which calls \<open>free\<close> on a local variable: on every state and every queue the call leaves the defined behaviour of C.\<close>

theorem printQueueState_l_undefined: "printQueueState_l s l = None"
proof -
  have "printQueueState_l s l \<noteq> Some r" for r
    using destroyQueue_l_local by (auto simp: printQueueState_l_def)
  then show ?thesis by (cases "printQueueState_l s l") auto
qed

text \<open>C20 (the size walk returns the length). On a well-formed queue, \<open>qSize\<close> terminates and returns the number of passengers queued.\<close>

theorem qSize_l_length:
  assumes "invL s l" and "absL s l = Some xs"
  shows "qSize_l s l = Some (length xs)"
proof -
  obtain q ps where q: "qobjs s l = Some q" and seg: "qseg (qnodes s) (lhead q) ps None"
    using assms(1) by (auto simp: invL_qseg)
  then have "length xs = length ps" using absL_qseg [OF q seg] assms(2) by simp
  then show ?thesis using qcount_qseg [OF seg, of 0] q by (simp add: qSize_l_def)
qed

theorem qSize_l_length_witness: "qSize_l demo_lst (QHeap 0) = Some 1"
  using qSize_l_length [of demo_lst "QHeap 0" "[demo_passenger]"] demo_lst_inv by simp

end
