(* ===== verification/DigitSort.thy ===== *)
theory DigitSort
  imports Prelude "HOL-Library.Signed_Division" "HOL-Library.Multiset" "HOL-Library.Product_Lexorder"
begin

text \<open>
  \<open>src/AaDS/0_-1_/0_.c\<close>: the digit count and the product of the sums of
  the even and the odd digits of an \<open>int\<close>, and the selection sort that
  orders an array by the first criterion ascending and, on ties, by the
  second descending, swapping with the XOR trick. C's \<open>/\<close> and \<open>%\<close> on
  \<open>int\<close> truncate toward zero: they are \<open>sdiv\<close> and \<open>smod\<close> of
  \<open>Signed_Division\<close>. The values stay far inside the \<open>int\<close> range (a
  digit sum is at most 90), so \<open>int\<close> is the model of C's \<open>int\<close>.
\<close>

function digit_count_loop :: "int \<Rightarrow> int \<Rightarrow> int" where
  "digit_count_loop num digit_num =
     (if num \<noteq> 0 then digit_count_loop (num sdiv 10) (digit_num + 1) else digit_num)"
  by pat_completeness auto
termination
  by (relation "measure (\<lambda>(num, _). nat \<bar>num\<bar>)") (auto simp: signed_divide_int_def abs_mult sgn_if)

definition digit_count :: "int \<Rightarrow> int" where
  "digit_count num = digit_count_loop num 0"

function prod_sum_loop :: "int \<Rightarrow> int \<Rightarrow> int \<Rightarrow> int" where
  "prod_sum_loop num even_sum odd_sum =
     (if num \<noteq> 0 then
        (let digit = num smod 10 in
         if digit smod 2 = 0 then prod_sum_loop (num sdiv 10) (even_sum + digit) odd_sum
         else prod_sum_loop (num sdiv 10) even_sum (odd_sum + digit))
      else even_sum * odd_sum)"
  by pat_completeness auto
termination
  by (relation "measure (\<lambda>(num, _, _). nat \<bar>num\<bar>)") (auto simp: signed_divide_int_def abs_mult sgn_if)

definition prod_sum :: "int \<Rightarrow> int" where
  "prod_sum num = prod_sum_loop num 0 0"

declare digit_count_loop.simps [simp del] prod_sum_loop.simps [simp del]

text \<open>\<open>sort\<close>: the inner loop finds the index \<open>left\<close> of the element that
  comes first, the outer loop swaps it into place with three XORs.\<close>

function sel_inner :: "(int \<Rightarrow> int) \<Rightarrow> (int \<Rightarrow> int) \<Rightarrow> int list \<Rightarrow> nat \<Rightarrow> nat \<Rightarrow> nat" where
  "sel_inner crit1 crit2 a left j =
     (if j < length a then
        (if crit1 (a ! left) > crit1 (a ! j) then sel_inner crit1 crit2 a j (Suc j)
         else if crit1 (a ! left) = crit1 (a ! j) \<and> crit2 (a ! left) < crit2 (a ! j)
         then sel_inner crit1 crit2 a j (Suc j)
         else sel_inner crit1 crit2 a left (Suc j))
      else left)"
  by pat_completeness auto
termination
  by (relation "measure (\<lambda>(_, _, a, _, j). length a - j)") auto

declare sel_inner.simps [simp del]

definition xor_swap :: "int list \<Rightarrow> nat \<Rightarrow> nat \<Rightarrow> int list" where
  "xor_swap a left i =
     (let a1 = a[left := a ! left XOR a ! i];
          a2 = a1[i := a1 ! left XOR a1 ! i]
      in a2[left := a2 ! left XOR a2 ! i])"

function sel_outer :: "(int \<Rightarrow> int) \<Rightarrow> (int \<Rightarrow> int) \<Rightarrow> int list \<Rightarrow> nat \<Rightarrow> int list" where
  "sel_outer crit1 crit2 a i =
     (if i < length a - 1 then
        (let left = sel_inner crit1 crit2 a i (Suc i)
         in sel_outer crit1 crit2 (if left \<noteq> i then xor_swap a left i else a) (Suc i))
      else a)"
  by pat_completeness auto
termination
  by (relation "measure (\<lambda>(_, _, a, i). length a - i)") (auto simp: xor_swap_def Let_def)

text \<open>For \<open>len = 0\<close> the bound \<open>len - 1\<close> wraps to \<open>SIZE_MAX\<close> and the
  loops read past the array: undefined behaviour, \<open>None\<close>.\<close>

definition sort_c :: "int list \<Rightarrow> (int \<Rightarrow> int) \<Rightarrow> (int \<Rightarrow> int) \<Rightarrow> int list option" where
  "sort_c a crit1 crit2 = (if a = [] then None else Some (sel_outer crit1 crit2 a 0))"

text \<open>The order the sort establishes: \<open>x\<close> may come before \<open>y\<close>.\<close>

definition before :: "(int \<Rightarrow> int) \<Rightarrow> (int \<Rightarrow> int) \<Rightarrow> int \<Rightarrow> int \<Rightarrow> bool" where
  "before crit1 crit2 x y = (crit1 x < crit1 y \<or> crit1 x = crit1 y \<and> crit2 y \<le> crit2 x)"

text \<open>The decimal digits of a natural number, least significant first.\<close>

fun digits10 :: "nat \<Rightarrow> nat list" where
  "digits10 n = (if n = 0 then [] else n mod 10 # digits10 (n div 10))"

text \<open>The sums of the even and of the odd digits.\<close>

definition even_digit_sum :: "nat \<Rightarrow> int" where
  "even_digit_sum m = int (sum_list (filter even (digits10 m)))"

definition odd_digit_sum :: "nat \<Rightarrow> int" where
  "odd_digit_sum m = int (sum_list (filter odd (digits10 m)))"

declare sel_outer.simps [simp del] digits10.simps [simp del]

subsection \<open>Digits\<close>

lemma sdiv_10_signed: "s \<in> {1, -1} \<Longrightarrow> (s * int m) sdiv 10 = s * int (m div 10)"
  by (auto simp: signed_divide_int_def sgn_mult abs_mult zdiv_int sgn_if)

lemma smod_10_signed: "s \<in> {1, -1} \<Longrightarrow> (s * int m) smod 10 = s * int (m mod 10)"
  by (auto simp: signed_modulo_int_def sgn_mult abs_mult zmod_int sgn_if)

lemma smod_2_signed:
  assumes "s \<in> {1, -1}"
  shows "(s * int d) smod 2 = 0 \<longleftrightarrow> even d"
proof -
  have "(s * int d) smod 2 = s * int (d mod 2)"
    using assms by (auto simp: signed_modulo_int_def sgn_mult abs_mult zmod_int sgn_if)
  moreover have "s \<noteq> 0" using assms by auto
  ultimately show ?thesis by (simp add: even_iff_mod_2_eq_zero)
qed

lemma signed_nat: "\<exists>s \<in> {1, -1}. n = s * int (nat \<bar>n\<bar>)"
  by (cases "0 \<le> n") auto

lemma digits10_Suc: "0 < m \<Longrightarrow> digits10 m = m mod 10 # digits10 (m div 10)"
  by (simp add: digits10.simps)

lemma digit_count_loop_digits:
  "s \<in> {1, -1} \<Longrightarrow> digit_count_loop (s * int m) c = c + int (length (digits10 m))"
proof (induction m arbitrary: c rule: less_induct)
  case (less m)
  show ?case
  proof (cases "m = 0")
    case True
    then show ?thesis by (subst digit_count_loop.simps) (simp add: digits10.simps)
  next
    case False
    then have "s * int m \<noteq> 0" using less.prems by auto
    then have "digit_count_loop (s * int m) c = digit_count_loop (s * int (m div 10)) (c + 1)"
      using less.prems by (subst digit_count_loop.simps) (simp add: sdiv_10_signed)
    also have "\<dots> = c + 1 + int (length (digits10 (m div 10)))"
      using less.IH [of "m div 10"] False less.prems by simp
    finally show ?thesis using False by (simp add: digits10_Suc)
  qed
qed

lemma prod_sum_loop_digits:
  "s \<in> {1, -1} \<Longrightarrow>
   prod_sum_loop (s * int m) e od = (e + s * even_digit_sum m) * (od + s * odd_digit_sum m)"
proof (induction m arbitrary: e od rule: less_induct)
  case (less m)
  show ?case
  proof (cases "m = 0")
    case True
    then show ?thesis by (subst prod_sum_loop.simps) (simp add: digits10.simps even_digit_sum_def odd_digit_sum_def)
  next
    case False
    let ?d = "m mod 10"
    have ne: "s * int m \<noteq> 0" using False less.prems by auto
    have ih: "\<And>e od. prod_sum_loop (s * int (m div 10)) e od =
                 (e + s * even_digit_sum (m div 10)) * (od + s * odd_digit_sum (m div 10))"
      using less.IH [of "m div 10"] False less.prems by simp
    have d: "(s * int m) smod 10 = s * int ?d" using smod_10_signed [OF less.prems] .
    show ?thesis
    proof (cases "even ?d")
      case True
      then have "prod_sum_loop (s * int m) e od = prod_sum_loop (s * int (m div 10)) (e + s * int ?d) od"
        using ne d smod_2_signed [OF less.prems, of ?d] less.prems
        by (subst prod_sum_loop.simps) (simp add: sdiv_10_signed Let_def)
      then show ?thesis using ih True False
        by (simp add: even_digit_sum_def odd_digit_sum_def digits10_Suc algebra_simps)
    next
      case odd: False
      then have "prod_sum_loop (s * int m) e od = prod_sum_loop (s * int (m div 10)) e (od + s * int ?d)"
        using ne d smod_2_signed [OF less.prems, of ?d] less.prems
        by (subst prod_sum_loop.simps) (simp add: sdiv_10_signed Let_def)
      then show ?thesis using ih odd False
        by (simp add: even_digit_sum_def odd_digit_sum_def digits10_Suc algebra_simps)
    qed
  qed
qed

subsection \<open>Selection sort\<close>

lemma xor_swap_eq:
  assumes "l < length a" "i < length a" "l \<noteq> i"
  shows "xor_swap a l i = a[l := a ! i, i := a ! l]"
proof -
  have x: "(a ! l XOR a ! i) XOR a ! l = a ! i" "(a ! l XOR a ! i) XOR a ! i = a ! l"
    "a ! l XOR (a ! i XOR a ! l) = a ! i" "a ! l XOR (a ! i XOR a ! i) = a ! l"
    by (simp_all add: xor.assoc xor.left_commute)
  then show ?thesis using assms by (simp add: xor_swap_def Let_def nth_list_update list_update_swap)
qed

lemma before_trans: "before c1 c2 x y \<Longrightarrow> before c1 c2 y z \<Longrightarrow> before c1 c2 x z"
  by (auto simp: before_def)

lemma before_total: "before c1 c2 x y \<or> before c1 c2 y x"
  by (auto simp: before_def)

lemma sel_inner_min:
  "i \<le> left \<Longrightarrow> left < j \<Longrightarrow> (\<forall>k. i \<le> k \<and> k < j \<longrightarrow> before c1 c2 (a ! left) (a ! k)) \<Longrightarrow>
   i \<le> sel_inner c1 c2 a left j \<and> (left < length a \<longrightarrow> sel_inner c1 c2 a left j < length a) \<and>
   (\<forall>k. i \<le> k \<and> k < length a \<longrightarrow> before c1 c2 (a ! sel_inner c1 c2 a left j) (a ! k))"
proof (induction c1 c2 a left j rule: sel_inner.induct)
  case (1 c1 c2 a left j)
  show ?case
  proof (cases "j < length a")
    case False
    then show ?thesis using "1.prems" by (subst (1 2 3) sel_inner.simps) auto
  next
    case True
    consider (gt) "c1 (a ! left) > c1 (a ! j)"
      | (eq) "\<not> c1 (a ! left) > c1 (a ! j)" "c1 (a ! left) = c1 (a ! j) \<and> c2 (a ! left) < c2 (a ! j)"
      | (keep) "\<not> c1 (a ! left) > c1 (a ! j)" "\<not> (c1 (a ! left) = c1 (a ! j) \<and> c2 (a ! left) < c2 (a ! j))"
      by blast
    then show ?thesis
    proof cases
      case gt
      have "before c1 c2 (a ! j) (a ! left)" using gt by (simp add: before_def)
      then have "\<forall>k. i \<le> k \<and> k < Suc j \<longrightarrow> before c1 c2 (a ! j) (a ! k)"
        using "1.prems"(3) before_trans less_Suc_eq by (metis before_def order_refl)
      then show ?thesis using "1.IH"(1) [OF True gt] "1.prems" True gt
        by (subst (1 2 3) sel_inner.simps) simp
    next
      case eq
      have "before c1 c2 (a ! j) (a ! left)" using eq by (simp add: before_def)
      then have "\<forall>k. i \<le> k \<and> k < Suc j \<longrightarrow> before c1 c2 (a ! j) (a ! k)"
        using "1.prems"(3) before_trans less_Suc_eq by (metis before_def order_refl)
      then show ?thesis using "1.IH"(2) [OF True eq] "1.prems" True eq
        by (subst (1 2 3) sel_inner.simps) simp
    next
      case keep
      have "before c1 c2 (a ! left) (a ! j)" using keep by (auto simp: before_def)
      then have "\<forall>k. i \<le> k \<and> k < Suc j \<longrightarrow> before c1 c2 (a ! left) (a ! k)"
        using "1.prems"(3) less_Suc_eq by auto
      then show ?thesis using "1.IH"(3) [OF True keep] "1.prems" True keep
        by (subst (1 2 3) sel_inner.simps) auto
    qed
  qed
qed

lemma before_refl: "before c1 c2 x x"
  by (simp add: before_def)

lemma take_swap:
  assumes "i \<le> l" "l < length a"
  shows "take (Suc i) (a[l := a ! i, i := a ! l]) = take i a @ [a ! l]"
proof (rule nth_equalityI)
  show "length (take (Suc i) (a[l := a ! i, i := a ! l])) = length (take i a @ [a ! l])"
    using assms by simp
next
  fix k assume "k < length (take (Suc i) (a[l := a ! i, i := a ! l]))"
  then show "take (Suc i) (a[l := a ! i, i := a ! l]) ! k = (take i a @ [a ! l]) ! k"
    using assms by (auto simp: nth_append nth_list_update)
qed

lemma in_set_drop_iff: "y \<in> set (drop n xs) \<longleftrightarrow> (\<exists>k. n \<le> k \<and> k < length xs \<and> y = xs ! k)"
proof
  assume "y \<in> set (drop n xs)"
  then obtain j where "j < length xs - n" "y = xs ! (n + j)" by (auto simp: in_set_conv_nth)
  then show "\<exists>k. n \<le> k \<and> k < length xs \<and> y = xs ! k" by (intro exI [of _ "n + j"]) auto
next
  assume "\<exists>k. n \<le> k \<and> k < length xs \<and> y = xs ! k"
  then obtain k where "n \<le> k" "k < length xs" "y = xs ! k" by blast
  then show "y \<in> set (drop n xs)" unfolding in_set_conv_nth by (intro exI [of _ "k - n"]) auto
qed

lemma set_drop_swap:
  assumes "i \<le> l" "l < length a"
  shows "set (drop (Suc i) (a[l := a ! i, i := a ! l])) \<subseteq> set (drop i a)"
proof
  fix y assume "y \<in> set (drop (Suc i) (a[l := a ! i, i := a ! l]))"
  then obtain k where k: "Suc i \<le> k" "k < length a" "y = a[l := a ! i, i := a ! l] ! k"
    by (auto simp: in_set_drop_iff)
  then have "y = (if k = l then a ! i else a ! k)" using assms by (auto simp: nth_list_update)
  moreover have "a ! i \<in> set (drop i a)"
    using assms unfolding in_set_drop_iff by (intro exI [of _ i]) auto
  moreover have "a ! k \<in> set (drop i a)"
    using k unfolding in_set_drop_iff by (intro exI [of _ k]) auto
  ultimately show "y \<in> set (drop i a)" by auto
qed

lemma sel_outer_sorted:
  "i \<le> length a \<Longrightarrow> sorted_wrt (before c1 c2) (take i a) \<Longrightarrow>
   (\<forall>x\<in>set (take i a). \<forall>y\<in>set (drop i a). before c1 c2 x y) \<Longrightarrow>
   mset (sel_outer c1 c2 a i) = mset a \<and> sorted_wrt (before c1 c2) (sel_outer c1 c2 a i)"
proof (induction c1 c2 a i rule: sel_outer.induct)
  case (1 c1 c2 a i)
  show ?case
  proof (cases "i < length a - 1")
    case False
    then have "length (drop i a) \<le> 1" by simp
    then have "sorted_wrt (before c1 c2) (drop i a)" by (cases "drop i a") auto
    then have "sorted_wrt (before c1 c2) (take i a @ drop i a)"
      using "1.prems" by (simp only: sorted_wrt_append)
    then show ?thesis using False by (simp add: sel_outer.simps [of c1 c2 a i])
  next
    case True
    define l where "l = sel_inner c1 c2 a i (Suc i)"
    have pre: "\<forall>k. i \<le> k \<and> k < Suc i \<longrightarrow> before c1 c2 (a ! i) (a ! k)"
      by (auto simp: before_def le_less_Suc_eq)
    have m: "i \<le> l" "l < length a" "\<forall>k. i \<le> k \<and> k < length a \<longrightarrow> before c1 c2 (a ! l) (a ! k)"
      using sel_inner_min [of i i "Suc i" c1 c2 a] pre True unfolding l_def by auto
    define a' where "a' = a[l := a ! i, i := a ! l]"
    have a': "(if l \<noteq> i then xor_swap a l i else a) = a'"
      using m True by (auto simp: a'_def xor_swap_eq)
    have len: "length a' = length a" by (simp add: a'_def)
    have ms: "mset a' = mset a" using m True unfolding a'_def by (simp add: mset_swap)
    have al: "a ! l \<in> set (drop i a)" using m by (auto simp: in_set_conv_nth intro!: exI [of _ "l - i"])
    have tk: "take (Suc i) a' = take i a @ [a ! l]" using take_swap [OF m(1,2)] by (simp add: a'_def)
    have dr: "set (drop (Suc i) a') \<subseteq> set (drop i a)" using set_drop_swap [OF m(1,2)] by (simp add: a'_def)
    have lmin: "\<forall>y\<in>set (drop i a). before c1 c2 (a ! l) y"
      using m(3) by (auto simp: in_set_conv_nth)
    have s: "sorted_wrt (before c1 c2) (take (Suc i) a')"
      using "1.prems"(2,3) al tk by (simp add: sorted_wrt_append)
    have c: "\<forall>x\<in>set (take (Suc i) a'). \<forall>y\<in>set (drop (Suc i) a'). before c1 c2 x y"
      using "1.prems"(3) lmin dr tk by auto
    have "mset (sel_outer c1 c2 a' (Suc i)) = mset a' \<and> sorted_wrt (before c1 c2) (sel_outer c1 c2 a' (Suc i))"
      using "1.IH" [OF True, of l] l_def a' len True s c by simp
    moreover have "sel_outer c1 c2 a i = sel_outer c1 c2 (if l \<noteq> i then xor_swap a l i else a) (Suc i)"
      using True unfolding l_def by (simp add: sel_outer.simps [of c1 c2 a i] Let_def)
    ultimately show ?thesis using ms a' by simp
  qed
qed

lemma before_key: "before c1 c2 x y \<longleftrightarrow> (c1 x, - c2 x) \<le> (c1 y, - c2 y)"
  by (auto simp: before_def)

subsection \<open>Properties\<close>

text \<open>C25 (digit count). \<open>digit_count\<close> returns the number of decimal digits of the absolute value; for 0 that is 0, not 1.\<close>

theorem digit_count_digits: "digit_count n = int (length (digits10 (nat \<bar>n\<bar>)))"
proof -
  obtain s where "s \<in> {1, -1}" "n = s * int (nat \<bar>n\<bar>)" using signed_nat [of n] by blast
  then show ?thesis using digit_count_loop_digits [of s "nat \<bar>n\<bar>" 0] by (simp add: digit_count_def)
qed

text \<open>C26 (product of the digit sums). \<open>prod_sum\<close> is the sum of the even digits times the sum of the odd digits of the absolute value: on a negative number both sums are negated by C's \<open>%\<close> and the signs cancel.\<close>

theorem prod_sum_digits: "prod_sum n = even_digit_sum (nat \<bar>n\<bar>) * odd_digit_sum (nat \<bar>n\<bar>)"
proof -
  obtain s where s: "s \<in> {1, -1}" "n = s * int (nat \<bar>n\<bar>)" using signed_nat [of n] by blast
  then have "prod_sum n = (s * even_digit_sum (nat \<bar>n\<bar>)) * (s * odd_digit_sum (nat \<bar>n\<bar>))"
    using prod_sum_loop_digits [of s "nat \<bar>n\<bar>" 0 0] by (simp add: prod_sum_def)
  moreover have "s * s = 1" using s(1) by auto
  ultimately show ?thesis by (simp add: algebra_simps)
qed

text \<open>C27 (the XOR swap is a swap). For two different in-range indices the three XOR assignments exchange the two elements.\<close>

theorem xor_swap_is_swap:
  assumes "l < length a" and "i < length a" and "l \<noteq> i"
  shows "xor_swap a l i = a[l := a ! i, i := a ! l]"
  using xor_swap_eq [OF assms] .

theorem xor_swap_is_swap_witness: "xor_swap [3, 5, 7] 0 2 = [7, 5, 3]"
  using xor_swap_is_swap [of 0 "[3, 5, 7]" 2] by simp

text \<open>C28 (the sort sorts). On a non-empty array \<open>sort\<close> returns a permutation ordered by the first criterion ascending and, on ties, the second descending: the keys \<open>(crit1 x, - crit2 x)\<close> come out as the sorted list of the input's keys.\<close>

theorem sort_c_sorts:
  assumes "a \<noteq> []"
  shows "\<exists>b. sort_c a crit1 crit2 = Some b \<and> mset b = mset a \<and> sorted_wrt (before crit1 crit2) b \<and>
             map (\<lambda>x. (crit1 x, - crit2 x)) b = sort (map (\<lambda>x. (crit1 x, - crit2 x)) a)"
proof -
  let ?b = "sel_outer crit1 crit2 a 0"
  have b: "mset ?b = mset a" "sorted_wrt (before crit1 crit2) ?b"
    using sel_outer_sorted [of 0 a crit1 crit2] by simp_all
  have "sorted_wrt (\<lambda>x y. (crit1 x, - crit2 x) \<le> (crit1 y, - crit2 y)) ?b"
    using b(2) by (rule sorted_wrt_mono_rel [rotated]) (simp only: before_key)
  then have s: "sorted (map (\<lambda>x. (crit1 x, - crit2 x)) ?b)"
    unfolding sorted_map .
  have m: "mset (map (\<lambda>x. (crit1 x, - crit2 x)) ?b) = mset (map (\<lambda>x. (crit1 x, - crit2 x)) a)"
    using b(1) by simp
  have "sort (map (\<lambda>x. (crit1 x, - crit2 x)) a) = map (\<lambda>x. (crit1 x, - crit2 x)) ?b"
    using properties_for_sort [OF m s] .
  then show ?thesis using assms b by (simp add: sort_c_def)
qed

theorem sort_c_sorts_witness:
  "sort_c [12, 7, 345, 21] digit_count prod_sum = Some [7, 12, 21, 345]"
proof -
  have "sort_c [12, 7, 345, 21] digit_count prod_sum \<noteq> None" by (simp add: sort_c_def)
  then obtain b where "sort_c [12, 7, 345, 21] digit_count prod_sum = Some b"
    "map (\<lambda>x. (digit_count x, - prod_sum x)) b = sort (map (\<lambda>x. (digit_count x, - prod_sum x)) [12, 7, 345, 21])"
    using sort_c_sorts [of "[12, 7, 345, 21]" digit_count prod_sum] by auto
  moreover have "sort_c [12, 7, 345, 21] digit_count prod_sum = Some [7, 12, 21, 345]" by code_simp
  ultimately show ?thesis by simp
qed

end
