(* ===== verification/MatrixRows.thy ===== *)
theory MatrixRows
  imports Prelude
begin

text \<open>
  \<open>src/AaDS/0_-1_/1_.c\<close>: \<open>transformMatrix\<close> cuts every row of a ragged
  matrix before its first minimum. A matrix is the list of its rows (the
  row sizes are their lengths); reading and printing are console I/O and
  not modelled.
\<close>

text \<open>The inner loop: \<open>minIndex\<close> moves to \<open>j\<close> on a strictly smaller
  element, so it stops at the first minimum.\<close>

function min_index_loop :: "int list \<Rightarrow> nat \<Rightarrow> nat \<Rightarrow> nat" where
  "min_index_loop row minIndex j =
     (if j < length row then
        min_index_loop row (if row ! j < row ! minIndex then j else minIndex) (Suc j)
      else minIndex)"
  by pat_completeness auto
termination
  by (relation "measure (\<lambda>(row, _, j). length row - j)") auto

declare min_index_loop.simps [simp del]

definition transformRow :: "int list \<Rightarrow> int list" where
  "transformRow row =
     (let minIndex = min_index_loop row 0 1
      in map (\<lambda>j. row ! (minIndex + j)) [0..<length row - minIndex])"

definition transformMatrix :: "int list list \<Rightarrow> int list list" where
  "transformMatrix matrix = map transformRow matrix"

subsection \<open>The first minimum\<close>

lemma min_index_loop_first_min:
  "minIndex < j \<Longrightarrow> j \<le> length row \<Longrightarrow>
   (\<forall>k < j. row ! minIndex \<le> row ! k) \<Longrightarrow> (\<forall>k < minIndex. row ! minIndex < row ! k) \<Longrightarrow>
   min_index_loop row minIndex j < length row \<and>
   (\<forall>k < length row. row ! min_index_loop row minIndex j \<le> row ! k) \<and>
   (\<forall>k < min_index_loop row minIndex j. row ! min_index_loop row minIndex j < row ! k)"
proof (induction row minIndex j rule: min_index_loop.induct)
  case (1 row minIndex j)
  show ?case
  proof (cases "j < length row")
    case False
    then have "min_index_loop row minIndex j = minIndex" by (subst min_index_loop.simps) simp
    then show ?thesis using "1.prems" False by simp
  next
    case True
    let ?m' = "if row ! j < row ! minIndex then j else minIndex"
    have "\<forall>k < Suc j. row ! ?m' \<le> row ! k" "\<forall>k < ?m'. row ! ?m' < row ! k"
      using "1.prems" by (auto simp: less_Suc_eq)
    then have "min_index_loop row ?m' (Suc j) < length row \<and>
       (\<forall>k < length row. row ! min_index_loop row ?m' (Suc j) \<le> row ! k) \<and>
       (\<forall>k < min_index_loop row ?m' (Suc j). row ! min_index_loop row ?m' (Suc j) < row ! k)"
      using "1.IH" [OF True] "1.prems" True by auto
    moreover have "min_index_loop row minIndex j = min_index_loop row ?m' (Suc j)"
      using True by (subst min_index_loop.simps) simp
    ultimately show ?thesis by simp
  qed
qed

lemma dropWhile_first_min:
  assumes "m < length row" "\<forall>k < m. row ! k \<noteq> x" "row ! m = x"
  shows "dropWhile (\<lambda>y. y \<noteq> x) row = drop m row"
  using assms
proof (induction row arbitrary: m)
  case Nil
  then show ?case by simp
next
  case (Cons y ys)
  show ?case
  proof (cases m)
    case 0
    then show ?thesis using Cons.prems by simp
  next
    case (Suc m')
    then have "y \<noteq> x" using Cons.prems(2) by (metis nth_Cons_0 zero_less_Suc)
    moreover have "\<forall>k < m'. ys ! k \<noteq> x"
    proof (intro allI impI)
      fix k assume "k < m'"
      then have "Suc k < m" using Suc by simp
      then show "ys ! k \<noteq> x" using Cons.prems(2) by (metis nth_Cons_Suc)
    qed
    then have "dropWhile (\<lambda>y. y \<noteq> x) ys = drop m' ys"
      using Cons.IH [of m'] Cons.prems Suc by auto
    ultimately show ?thesis using Suc by simp
  qed
qed

subsection \<open>Properties\<close>

text \<open>C29 (a row is cut at its first minimum). For a non-empty row, the transformed row is the suffix of the row starting at the first occurrence of its minimum.\<close>

theorem transformRow_first_min:
  assumes "row \<noteq> []"
  shows "transformRow row = dropWhile (\<lambda>y. y \<noteq> Min (set row)) row"
proof -
  let ?m = "min_index_loop row 0 1"
  have m: "?m < length row" "\<forall>k < length row. row ! ?m \<le> row ! k" "\<forall>k < ?m. row ! ?m < row ! k"
    using min_index_loop_first_min [of 0 1 row] assms by (auto simp: Suc_le_eq)
  have "row ! ?m = Min (set row)"
    using m by (intro Min_eqI [symmetric]) (auto simp: in_set_conv_nth)
  then have "dropWhile (\<lambda>y. y \<noteq> Min (set row)) row = drop ?m row"
    using m by (intro dropWhile_first_min) auto
  moreover have "transformRow row = drop ?m row"
    by (auto simp: transformRow_def Let_def intro!: nth_equalityI)
  ultimately show ?thesis by simp
qed

theorem transformRow_first_min_witness: "transformRow [4, 2, 5, 2, 7] = [2, 5, 2, 7]"
  using transformRow_first_min [of "[4, 2, 5, 2, 7]"] by simp

end
