(* ===== verification/TextJustify.thy ===== *)
theory TextJustify
  imports Prelude
begin

text \<open>
  \<open>src/AaDS/0_-1_/05b_.c\<close>: a line of text is copied into a singly linked
  list of characters, runs of blanks are squeezed out of the list, and the
  words are printed justified to \<open>WIDTH\<close> = 80 columns. The list is
  private to \<open>main\<close>'s iteration and never aliased, so it is modelled by
  the list of its characters; \<open>append\<close> walks to the last node and links a
  new one, which is \<open>xs @ [ch]\<close>. \<open>justify\<close> collects the words in the
  fixed arrays \<open>char words[80][80]\<close> and \<open>int wordLenghts[80]\<close>: a write
  outside them is undefined behaviour, \<open>None\<close>. The printed output is a
  list of lines.
\<close>

abbreviation WIDTH :: nat where "WIDTH \<equiv> 80"

definition is_blank :: "char \<Rightarrow> bool" where
  "is_blank c = (c = CHR '' '' \<or> c = CHR 0x09)"

definition append_note :: "char list \<Rightarrow> char \<Rightarrow> char list" where
  "append_note head ch = head @ [ch]"

definition stringToList :: "string \<Rightarrow> char list" where
  "stringToList str = foldl append_note [] str"

text \<open>\<open>removeExtraSpaces\<close>: a blank is deleted unless it follows a word;
  a kept blank ends the word.\<close>

fun removeExtraSpaces_loop :: "bool \<Rightarrow> char list \<Rightarrow> char list" where
  "removeExtraSpaces_loop inWord [] = []"
| "removeExtraSpaces_loop inWord (c # cs) =
     (if is_blank c then
        (if \<not> inWord then removeExtraSpaces_loop inWord cs
         else c # removeExtraSpaces_loop False cs)
      else c # removeExtraSpaces_loop True cs)"

definition removeExtraSpaces :: "char list \<Rightarrow> char list" where
  "removeExtraSpaces head = removeExtraSpaces_loop False head"

text \<open>The first loop of \<open>justify\<close>: \<open>cur\<close> is the word being read into
  \<open>words[wordCount]\<close>, \<open>ws\<close> the words finished so far.\<close>

fun collect_words :: "char list \<Rightarrow> string \<Rightarrow> string list \<Rightarrow> string list option" where
  "collect_words [] cur ws =
     (if 0 < length cur then
        (if WIDTH \<le> length ws \<or> WIDTH \<le> length cur then None else Some (ws @ [cur]))
      else Some ws)"
| "collect_words (c # cs) cur ws =
     (if c \<noteq> CHR '' '' \<and> c \<noteq> CHR 0x09 then
        (if WIDTH \<le> length ws \<or> WIDTH \<le> length cur then None else collect_words cs (cur @ [c]) ws)
      else if 0 < length cur then
        (if WIDTH \<le> length ws \<or> WIDTH \<le> length cur then None else collect_words cs [] (ws @ [cur]))
      else collect_words cs cur ws)"

text \<open>How many words from the first fit on one line, with the line length
  they make (one blank between words).\<close>

fun fill_line :: "nat list \<Rightarrow> nat \<Rightarrow> nat \<Rightarrow> nat \<times> nat" where
  "fill_line [] lineLength wordsInLine = (lineLength, wordsInLine)"
| "fill_line (l # ls) lineLength wordsInLine =
     (if lineLength + 1 + l \<le> WIDTH then fill_line ls (lineLength + 1 + l) (Suc wordsInLine)
      else (lineLength, wordsInLine))"

text \<open>One printed line: every word, and after each of the first \<open>gaps\<close>
  words \<open>baseSpaces\<close> blanks plus one more while \<open>extraSpaces\<close> lasts.\<close>

fun render_line :: "string list \<Rightarrow> nat \<Rightarrow> nat \<Rightarrow> nat \<Rightarrow> nat \<Rightarrow> string" where
  "render_line [] j gaps baseSpaces extraSpaces = []"
| "render_line (w # ws) j gaps baseSpaces extraSpaces =
     (if j < gaps then
        w @ replicate baseSpaces CHR '' '' @ (if 0 < extraSpaces then '' '' else [])
          @ render_line ws (Suc j) gaps baseSpaces (if 0 < extraSpaces then extraSpaces - 1 else extraSpaces)
      else w @ render_line ws (Suc j) gaps baseSpaces extraSpaces)"

function justify_lines :: "string list \<Rightarrow> string list" where
  "justify_lines ws =
     (if ws = [] then []
      else
        (let (lineLength, wordsInLine) = fill_line (map length (tl ws)) (length (hd ws)) 1;
             gaps = (if 1 < wordsInLine then wordsInLine - 1 else 1);
             spaces = WIDTH - (lineLength - gaps)
         in render_line (take wordsInLine ws) 0 gaps (spaces div gaps) (spaces mod gaps)
            # justify_lines (drop wordsInLine ws)))"
  by pat_completeness auto

termination
proof (relation "measure length")
  have fill: "b \<le> snd (fill_line ls a b)" for ls a b
    by (induction ls arbitrary: a b) (auto dest: Suc_leD)
  fix ws p lineLength wordsInLine
  assume "ws \<noteq> []" "p = fill_line (map length (tl ws)) (length (hd ws)) 1" "(lineLength, wordsInLine) = p"
  then have "1 \<le> wordsInLine" using fill [where ls = "map length (tl ws)" and a = "length (hd ws)" and b = 1] by (metis snd_conv)
  then show "(drop wordsInLine ws, ws) \<in> measure length" using \<open>ws \<noteq> []\<close> by simp
qed simp

declare justify_lines.simps [simp del]

definition justify :: "char list \<Rightarrow> string list option" where
  "justify head = do { ws \<leftarrow> collect_words head [] []; Some (justify_lines ws) }"

text \<open>One iteration of \<open>main\<close>'s loop on a line read into \<open>buffer\<close>: the
  squeezed list printed by \<open>printList\<close>, then the justified lines.\<close>

definition process_line :: "string \<Rightarrow> (string \<times> string list) option" where
  "process_line buffer =
     (let head = removeExtraSpaces (stringToList buffer)
      in do { lines \<leftarrow> justify head; Some (head, lines) })"

text \<open>The words of a text, the reference for \<open>justify\<close>'s first loop.\<close>

fun split_words :: "char list \<Rightarrow> string \<Rightarrow> string list" where
  "split_words [] cur = (if cur = [] then [] else [cur])"
| "split_words (c # cs) cur =
     (if is_blank c then (if cur = [] then split_words cs [] else cur # split_words cs [])
      else split_words cs (cur @ [c]))"

definition words_of :: "char list \<Rightarrow> string list" where
  "words_of s = split_words s []"

text \<open>No two blanks in a row.\<close>

fun no_double_blank :: "char list \<Rightarrow> bool" where
  "no_double_blank (a # b # cs) = (\<not> (is_blank a \<and> is_blank b) \<and> no_double_blank (b # cs))"
| "no_double_blank _ = True"

text \<open>A word as \<open>split_words\<close> produces it: non-empty, no blank.\<close>

definition valid_word :: "string \<Rightarrow> bool" where
  "valid_word w = (w \<noteq> [] \<and> list_all (\<lambda>c. \<not> is_blank c) w)"

subsection \<open>Squeezing and justifying\<close>

lemma removeExtraSpaces_loop_filter:
  "filter (\<lambda>c. \<not> is_blank c) (removeExtraSpaces_loop b xs) = filter (\<lambda>c. \<not> is_blank c) xs"
  by (induction b xs rule: removeExtraSpaces_loop.induct) auto

lemma removeExtraSpaces_loop_head:
  "case removeExtraSpaces_loop False xs of [] \<Rightarrow> True | c # _ \<Rightarrow> \<not> is_blank c"
  by (induction xs) auto

lemma no_double_blank_Cons:
  "no_double_blank r \<Longrightarrow> (case r of [] \<Rightarrow> True | d # _ \<Rightarrow> \<not> (is_blank c \<and> is_blank d)) \<Longrightarrow>
   no_double_blank (c # r)"
  by (cases r) auto

lemma removeExtraSpaces_loop_ndb: "no_double_blank (removeExtraSpaces_loop b xs)"
proof (induction b xs rule: removeExtraSpaces_loop.induct)
  case (1 inWord)
  then show ?case by simp
next
  case (2 inWord c cs)
  show ?case
  proof (cases "is_blank c")
    case True
    then show ?thesis using 2 removeExtraSpaces_loop_head [of cs]
      by (auto intro!: no_double_blank_Cons split: list.splits)
  next
    case False
    then show ?thesis using 2 by (auto intro!: no_double_blank_Cons split: list.splits)
  qed
qed

lemma stringToList_id: "stringToList str = str"
proof -
  have "foldl append_note acc str = acc @ str" for acc
    by (induction str arbitrary: acc) (simp_all add: append_note_def)
  then show ?thesis by (simp add: stringToList_def)
qed

lemma render_line_plain: "gaps \<le> j \<Longrightarrow> render_line ws j gaps base extra = concat ws"
  by (induction ws arbitrary: j extra) auto

lemma length_render_line:
  "length (render_line ws j gaps base extra) =
     sum_list (map length ws) + min (gaps - j) (length ws) * base + min extra (min (gaps - j) (length ws))"
proof (induction ws arbitrary: j extra)
  case Nil
  then show ?case by simp
next
  case (Cons w ws)
  show ?case
  proof (cases "j < gaps")
    case True
    then have k: "min (gaps - j) (length (w # ws)) = Suc (min (gaps - Suc j) (length ws))" by auto
    show ?thesis using Cons.IH [of "Suc j"] True unfolding k by (cases extra) auto
  next
    case False
    then show ?thesis by (simp add: render_line_plain length_concat)
  qed
qed

lemma split_words_append_word:
  "list_all (\<lambda>c. \<not> is_blank c) w \<Longrightarrow> split_words (w @ rest) cur = split_words rest (cur @ w)"
  by (induction w arbitrary: cur) auto

lemma split_words_blanks: "split_words (replicate k CHR '' '' @ rest) [] = split_words rest []"
  by (induction k) (auto simp: is_blank_def)

lemma split_words_word_blanks:
  assumes "valid_word w" "0 < k"
  shows "split_words (w @ replicate k CHR '' '' @ rest) [] = w # split_words rest []"
proof -
  obtain k' where "k = Suc k'" using assms(2) by (cases k) auto
  then show ?thesis using assms(1) split_words_blanks [of k' rest]
    by (simp add: valid_word_def split_words_append_word is_blank_def)
qed

lemma words_of_render_line:
  "list_all valid_word ws \<Longrightarrow> 0 < base \<Longrightarrow> j \<le> gaps \<Longrightarrow> length ws \<le> Suc (gaps - j) \<Longrightarrow>
   words_of (render_line ws j gaps base extra) = ws"
proof (induction ws arbitrary: j extra)
  case Nil
  then show ?case by (simp add: words_of_def)
next
  case (Cons w ws)
  show ?case
  proof (cases "j < gaps")
    case True
    let ?b = "replicate base CHR '' '' @ (if 0 < extra then '' '' else [])"
    have b: "?b = replicate (base + (if 0 < extra then 1 else 0)) CHR '' ''"
      by (simp add: replicate_add)
    have "words_of (render_line (w # ws) j gaps base extra) =
          split_words (w @ ?b @ render_line ws (Suc j) gaps base (if 0 < extra then extra - 1 else extra)) []"
      using True by (simp add: words_of_def)
    also have "\<dots> = w # words_of (render_line ws (Suc j) gaps base (if 0 < extra then extra - 1 else extra))"
      using Cons.prems split_words_word_blanks [of w "base + (if 0 < extra then 1 else 0)"]
      unfolding b by (simp add: words_of_def)
    finally show ?thesis using Cons.IH [of "Suc j"] Cons.prems True by simp
  next
    case False
    then have "ws = []" "j = gaps" using Cons.prems by auto
    then show ?thesis using Cons.prems split_words_append_word [of w "[]" "[]"]
      by (simp add: words_of_def valid_word_def)
  qed
qed

lemma fill_line_props:
  "fill_line ls a b = (ll, n) \<Longrightarrow>
   b \<le> n \<and> n \<le> b + length ls \<and> ll = a + sum_list (take (n - b) ls) + (n - b) \<and> (a \<le> WIDTH \<longrightarrow> ll \<le> WIDTH)"
proof (induction ls arbitrary: a b)
  case Nil
  then show ?case by simp
next
  case (Cons l ls)
  show ?case
  proof (cases "a + 1 + l \<le> WIDTH")
    case True
    then have "fill_line ls (a + 1 + l) (Suc b) = (ll, n)" using Cons.prems by simp
    from Cons.IH [OF this] True have "Suc b \<le> n" "n \<le> Suc b + length ls"
      "ll = a + 1 + l + sum_list (take (n - Suc b) ls) + (n - Suc b)" "ll \<le> WIDTH"
      by auto
    moreover have "n - b = Suc (n - Suc b)" using \<open>Suc b \<le> n\<close> by simp
    ultimately show ?thesis by (simp add: algebra_simps)
  next
    case False
    then show ?thesis using Cons.prems by auto
  qed
qed

lemma justify_lines_words_width:
  "list_all valid_word ws \<Longrightarrow> list_all (\<lambda>w. length w < WIDTH) ws \<Longrightarrow>
   concat (map words_of (justify_lines ws)) = ws \<and>
   list_all (\<lambda>line. length line = (if length (words_of line) = 1 then Suc WIDTH else WIDTH)) (justify_lines ws)"
proof (induction ws rule: justify_lines.induct)
  case (1 ws)
  show ?case
  proof (cases "ws = []")
    case True
    then show ?thesis by (simp add: justify_lines.simps)
  next
    case False
    obtain ll n where f: "fill_line (map length (tl ws)) (length (hd ws)) 1 = (ll, n)" by fastforce
    define gaps where "gaps = (if 1 < n then n - 1 else 1)"
    define spaces where "spaces = WIDTH - (ll - gaps)"
    define line where "line = render_line (take n ws) 0 gaps (spaces div gaps) (spaces mod gaps)"
    have hd: "length (hd ws) < WIDTH" "valid_word (hd ws)" using "1.prems" False by (cases ws; simp)+
    obtain w rest where ws: "ws = w # rest" using False by (cases ws) auto
    note fl = fill_line_props [OF f]
    have p: "1 \<le> n" "n \<le> 1 + length rest"
      "ll = length w + sum_list (take (n - 1) (map length rest)) + (n - 1)" "ll \<le> WIDTH"
      using conjunct1 [OF fl] conjunct1 [OF conjunct2 [OF fl]] conjunct1 [OF conjunct2 [OF conjunct2 [OF fl]]]
        conjunct2 [OF conjunct2 [OF conjunct2 [OF fl]]] hd ws by simp_all
    have tk: "take n ws = w # take (n - 1) rest" using ws p(1) by (cases n) auto
    have fp: "1 \<le> n" "n \<le> length ws" "ll = sum_list (map length (take n ws)) + (n - 1)" "ll \<le> WIDTH"
      using p ws tk by (simp_all add: take_map)
    have eq: "justify_lines ws = line # justify_lines (drop n ws)"
      using False f by (subst justify_lines.simps) (simp add: line_def gaps_def spaces_def Let_def)
    have g: "0 < gaps" by (simp add: gaps_def)
    have sp: "gaps \<le> spaces"
    proof (cases "1 < n")
      case True
      then show ?thesis using fp by (simp add: gaps_def spaces_def)
    next
      case False
      then have "n = 1" using fp by simp
      then have "ll = length (hd ws)" using fp \<open>ws \<noteq> []\<close> by (cases ws) auto
      then show ?thesis using hd \<open>n = 1\<close> by (simp add: gaps_def spaces_def)
    qed
    have base: "0 < spaces div gaps" using sp g by (simp add: div_greater_zero_iff)
    have valid: "list_all valid_word (take n ws)" using "1.prems"(1) by (auto simp: list_all_iff dest: in_set_takeD)
    have words: "words_of line = take n ws"
      unfolding line_def using valid base fp by (intro words_of_render_line) (auto simp: gaps_def)
    have len: "length line = (if length (words_of line) = 1 then Suc WIDTH else WIDTH)"
    proof (cases "1 < n")
      case True
      have "length line = sum_list (map length (take n ws)) + gaps * (spaces div gaps) + spaces mod gaps"
        using True fp g by (simp add: line_def length_render_line gaps_def min_def mod_less_divisor)
      also have "\<dots> = sum_list (map length (take n ws)) + spaces" by simp
      also have "\<dots> = WIDTH" using True fp by (simp add: spaces_def gaps_def)
      finally show ?thesis using words True fp by simp
    next
      case False
      then have "n = 1" using fp by simp
      then have "take n ws = [hd ws]" using \<open>ws \<noteq> []\<close> by (cases ws) auto
      moreover have "ll = length (hd ws)" using fp \<open>n = 1\<close> \<open>ws \<noteq> []\<close> by (cases ws) auto
      moreover obtain L where "length (hd ws) = L" "1 \<le> L" "L < WIDTH"
        using hd by (simp add: valid_word_def Suc_le_eq)
      ultimately have "length line = Suc WIDTH"
        using \<open>n = 1\<close> by (simp add: line_def length_render_line gaps_def spaces_def)
      then show ?thesis using words \<open>take n ws = [hd ws]\<close> by simp
    qed
    have "list_all valid_word (drop n ws)" "list_all (\<lambda>w. length w < WIDTH) (drop n ws)"
      using "1.prems" by (auto simp: list_all_iff dest: in_set_dropD)
    then have ih: "concat (map words_of (justify_lines (drop n ws))) = drop n ws \<and>
      list_all (\<lambda>line. length line = (if length (words_of line) = 1 then Suc WIDTH else WIDTH)) (justify_lines (drop n ws))"
      using "1.IH" [OF False refl] f by (simp add: Let_def)
    show ?thesis using eq words len ih by simp
  qed
qed

lemma split_words_first:
  "cur \<noteq> [] \<Longrightarrow> \<exists>w W. split_words xs cur = w # W \<and> length cur \<le> length w"
proof (induction xs arbitrary: cur)
  case Nil
  then show ?case by simp
next
  case (Cons c cs)
  show ?case
  proof (cases "is_blank c")
    case True
    then show ?thesis using Cons.prems by simp
  next
    case False
    obtain w W where "split_words cs (cur @ [c]) = w # W" "length (cur @ [c]) \<le> length w"
      using Cons.IH [of "cur @ [c]"] by auto
    then show ?thesis using False by simp
  qed
qed

lemma collect_words_split:
  "length ws \<le> WIDTH \<Longrightarrow> collect_words xs cur ws =
     (if length ws + length (split_words xs cur) \<le> WIDTH \<and> list_all (\<lambda>w. length w < WIDTH) (split_words xs cur)
      then Some (ws @ split_words xs cur) else None)"
proof (induction xs cur ws rule: collect_words.induct)
  case (1 cur ws)
  then show ?case by auto
next
  case (2 c cs cur ws)
  show ?case
  proof (cases "is_blank c")
    case False
    then have nb: "c \<noteq> CHR '' '' \<and> c \<noteq> CHR 0x09" by (simp add: is_blank_def)
    obtain w W where wW: "split_words cs (cur @ [c]) = w # W" "length (cur @ [c]) \<le> length w"
      using split_words_first [of "cur @ [c]" cs] by auto
    show ?thesis using "2.IH"(1) [OF nb] "2.prems" nb False wW by auto
  next
    case True
    then have b: "\<not> (c \<noteq> CHR '' '' \<and> c \<noteq> CHR 0x09)" by (simp add: is_blank_def)
    show ?thesis
    proof (cases "0 < length cur")
      case True
      then show ?thesis using "2.IH"(2) [OF b True] "2.prems" b \<open>is_blank c\<close> by auto
    next
      case False
      then show ?thesis using "2.IH"(3) [OF b False] "2.prems" b \<open>is_blank c\<close> by auto
    qed
  qed
qed

lemma split_words_valid:
  "list_all (\<lambda>c. \<not> is_blank c) cur \<Longrightarrow> list_all valid_word (split_words xs cur)"
  by (induction xs cur rule: split_words.induct) (auto simp: valid_word_def)

lemma words_of_removeExtraSpaces_loop:
  "(b \<longleftrightarrow> cur \<noteq> []) \<Longrightarrow> split_words (removeExtraSpaces_loop b xs) cur = split_words xs cur"
  by (induction b xs arbitrary: cur rule: removeExtraSpaces_loop.induct) auto

subsection \<open>Properties\<close>

text \<open>C30 (blanks are squeezed). \<open>removeExtraSpaces\<close> keeps every non-blank character in order, leaves no leading blank and no two blanks in a row, and so keeps the words of the line.\<close>

theorem removeExtraSpaces_squeezes:
  "filter (\<lambda>c. \<not> is_blank c) (removeExtraSpaces xs) = filter (\<lambda>c. \<not> is_blank c) xs \<and>
   no_double_blank (removeExtraSpaces xs) \<and>
   (case removeExtraSpaces xs of [] \<Rightarrow> True | c # _ \<Rightarrow> \<not> is_blank c) \<and>
   words_of (removeExtraSpaces xs) = words_of xs"
  using removeExtraSpaces_loop_filter [of False xs] removeExtraSpaces_loop_ndb [of False xs]
    removeExtraSpaces_loop_head [of xs] words_of_removeExtraSpaces_loop [of False "[]" xs]
  by (simp add: removeExtraSpaces_def words_of_def)

text \<open>C31 (justified lines keep the words; widths). For words without blanks and shorter than 80 characters, the justified lines hold exactly the input words in order; a line of two or more words is exactly 80 characters wide, but a line of one word is padded to 81.\<close>

theorem justify_lines_words_widths:
  assumes "list_all valid_word ws" and "list_all (\<lambda>w. length w < WIDTH) ws"
  shows "concat (map words_of (justify_lines ws)) = ws \<and>
         list_all (\<lambda>line. length line = (if length (words_of line) = 1 then Suc WIDTH else WIDTH)) (justify_lines ws)"
  using justify_lines_words_width [OF assms] .

theorem justify_lines_words_widths_witness:
  "concat (map words_of (justify_lines [''hello'', ''world''])) = [''hello'', ''world''] \<and>
   list_all (\<lambda>line. length line = (if length (words_of line) = 1 then Suc WIDTH else WIDTH))
     (justify_lines [''hello'', ''world''])"
  using justify_lines_words_widths [of "[''hello'', ''world'']"] by (simp add: valid_word_def is_blank_def)

text \<open>C32 (when justify is undefined). \<open>justify\<close> stays inside its arrays exactly when the text has at most 80 words, each shorter than 80 characters; then it justifies those words, otherwise it writes past \<open>words\<close> or \<open>wordLenghts\<close>.\<close>

theorem justify_defined_iff:
  "justify head =
     (if length (words_of head) \<le> WIDTH \<and> list_all (\<lambda>w. length w < WIDTH) (words_of head)
      then Some (justify_lines (words_of head)) else None)"
  using collect_words_split [of "[]" head "[]"] by (simp add: justify_def words_of_def)

end
