(* ===== verification/Brackets.thy ===== *)
theory Brackets
  imports Prelude
begin

text \<open>
  \<open>src/AaDS/0_-1_/05a_.c\<close>: \<open>extractBracketedText\<close> copies the words
  inside parentheses to an output buffer of 128 zero bytes, one blank after
  each group. A C string is the list of its characters, and a pointer into
  it is an index; the character at the end is the terminator \<open>'\0'\<close>. The
  output pointer is the length of what was written; writes outside the
  buffer, and the read \<open>*(output - 1)\<close> before its start, are undefined
  behaviour (\<open>None\<close>). The result is the string printed from the buffer.
\<close>

definition at :: "string \<Rightarrow> nat \<Rightarrow> char" where
  "at s i = (if i < length s then s ! i else CHR 0x00)"

text \<open>\<open>strchr(s + i, c)\<close> for a character \<open>c \<noteq> '\0'\<close>.\<close>

function strchr_idx :: "string \<Rightarrow> nat \<Rightarrow> char \<Rightarrow> nat option" where
  "strchr_idx s i c = (if i < length s then (if s ! i = c then Some i else strchr_idx s (Suc i) c) else None)"
  by pat_completeness auto
termination
  by (relation "measure (\<lambda>(s, i, _). length s - i)") auto

declare strchr_idx.simps [simp del]

function skip_spaces :: "string \<Rightarrow> nat \<Rightarrow> nat" where
  "skip_spaces s i = (if at s i = CHR '' '' then skip_spaces s (Suc i) else i)"
  by pat_completeness auto
termination
  by (relation "measure (\<lambda>(s, i). length s - i)") (auto simp: at_def split: if_splits)

declare skip_spaces.simps [simp del]

text \<open>The copy loop \<open>while (start < end)\<close>: a blank followed by a blank or
  by \<open>')'\<close> is skipped, every other character is copied.\<close>

function copy_seg :: "string \<Rightarrow> nat \<Rightarrow> nat \<Rightarrow> string \<Rightarrow> bool \<Rightarrow> nat \<times> string \<times> bool" where
  "copy_seg s start e out wordAdded =
     (if start < e then
        (if at s start = CHR '' '' \<and> (at s (Suc start) = CHR '' '' \<or> at s (Suc start) = CHR '')'')
         then copy_seg s (Suc start) e out wordAdded
         else copy_seg s (Suc start) e (out @ [at s start]) True)
      else (start, out, wordAdded))"
  by pat_completeness auto
termination
  by (relation "measure (\<lambda>(s, start, e, _). e - start)") auto

declare copy_seg.simps [simp del]

text \<open>The main loop \<open>while (*start)\<close>. The result tells whether the
  function returned from inside the loop (no further \<open>'('\<close>), and what was
  written.\<close>

function ebt_loop :: "string \<Rightarrow> nat \<Rightarrow> string \<Rightarrow> bool \<Rightarrow> bool \<times> string" where
  "ebt_loop s start out wordAdded =
     (if start < length s then
        (case strchr_idx s start CHR ''('' of
          None \<Rightarrow> (True, out)
        | Some p \<Rightarrow>
            (let st = skip_spaces s (Suc p);
                 e = (case strchr_idx s st CHR '')'' of None \<Rightarrow> length s | Some q \<Rightarrow> q)
             in if st = e then ebt_loop s st out wordAdded
                else
                  (let (st', out', wa') = copy_seg s st e out wordAdded
                   in if wa' then ebt_loop s st' (out' @ '' '') False else ebt_loop s st' out' wa')))
      else (False, out))"
  by pat_completeness auto
termination
proof -
  have ch: "strchr_idx s i c = Some p \<Longrightarrow> i \<le> p" for s i c p
    by (induction s i c rule: strchr_idx.induct) (subst (asm) strchr_idx.simps, auto split: if_splits)
  have sk: "i \<le> skip_spaces s i" for s i
    by (induction s i rule: skip_spaces.induct) (subst skip_spaces.simps, auto)
  have cp: "(a', r) = copy_seg s a e out w \<Longrightarrow> a \<le> a'" for s a e out w a' r
    by (induction s a e out w arbitrary: a' r rule: copy_seg.induct)
      (subst (asm) copy_seg.simps, auto split: if_splits dest: sym)
  show ?thesis
  proof (relation "measure (\<lambda>(s, start, _). Suc (length s) - start)")
    show "wf (measure (\<lambda>(s, start, _). Suc (length s) - start))" by simp
  next
    fix s start out wordAdded x2 x
    assume "start < length s" "strchr_idx s start CHR ''('' = Some x2" "x = skip_spaces s (Suc x2)"
    moreover have "start \<le> x2" by (rule ch [OF \<open>strchr_idx s start CHR ''('' = Some x2\<close>])
    ultimately have "start < x" using sk [of "Suc x2" s] by simp
    then show "((s, x, out, wordAdded), s, start, out, wordAdded) \<in> measure (\<lambda>(s, start, _). Suc (length s) - start)"
      using \<open>start < length s\<close> by simp
  next
    fix s start out wordAdded x2 x xa xb xc y xd ya
    assume a: "start < length s" "strchr_idx s start CHR ''('' = Some x2" "x = skip_spaces s (Suc x2)"
      "xb = copy_seg s x xa out wordAdded" "(xc, y) = xb"
    have "start \<le> x2" by (rule ch [OF a(2)])
    moreover have "x \<le> xc" using cp [of xc y s x xa out wordAdded] a(4,5) by simp
    ultimately have "start < xc" using sk [of "Suc x2" s] a(3) by simp
    then show "((s, xc, xd @ '' '', False), s, start, out, wordAdded) \<in> measure (\<lambda>(s, start, _). Suc (length s) - start)"
      "((s, xc, xd, ya), s, start, out, wordAdded) \<in> measure (\<lambda>(s, start, _). Suc (length s) - start)"
      using a(1) by simp_all
  qed
qed

declare ebt_loop.simps [simp del]

text \<open>After the loop: \<open>output--\<close>, then \<open>*(output - 1)\<close> is read and the
  pointer moves back once more over a blank, and \<open>'\0'\<close> is written. A
  \<open>return\<close> from inside the loop skips this, and \<open>printf\<close> then relies on
  the zeros of the \<open>calloc\<close>ed buffer to end the string.\<close>

definition extractBracketedText :: "string \<Rightarrow> string option" where
  "extractBracketedText input =
     (let (early, out) = ebt_loop input 0 [] False in
      if early then (if length out < 128 then Some out else None)
      else if 128 < length out \<or> length out < 2 then None
      else Some (take (if out ! (length out - 2) = CHR '' '' then length out - 2 else length out - 1) out))"

text \<open>\<open>stripString\<close>: the test looks at the character after the one the
  loop condition checked, and cuts the string at a newline there.\<close>

function strip_loop :: "string \<Rightarrow> nat \<Rightarrow> nat \<Rightarrow> nat \<Rightarrow> string" where
  "strip_loop s i count max_len =
     (if at s i \<noteq> CHR 0x00 \<and> count < max_len then
        (if at s (Suc i) = CHR 0x0A then take (Suc i) s else strip_loop s (Suc i) (Suc count) max_len)
      else s)"
  by pat_completeness auto
termination
  by (relation "measure (\<lambda>(s, i, _). length s - i)") (auto simp: at_def split: if_splits)

declare strip_loop.simps [simp del]

definition stripString :: "string \<Rightarrow> nat \<Rightarrow> string" where
  "stripString str max_len = strip_loop str 0 0 max_len"

text \<open>One iteration of \<open>main\<close> on a line read by \<open>scanf(" %[^\n]")\<close> into
  \<open>char input[128]\<close>, which has no field width: a line of 128 characters or
  more overflows \<open>input\<close>.\<close>

definition bracket_line :: "string \<Rightarrow> string option" where
  "bracket_line input =
     (if 128 \<le> length input then None else extractBracketedText (stripString input 128))"

subsection \<open>Scanning\<close>

lemma strchr_idx_found:
  "i \<le> j \<Longrightarrow> j < length s \<Longrightarrow> s ! j = c \<Longrightarrow> (\<forall>k. i \<le> k \<and> k < j \<longrightarrow> s ! k \<noteq> c) \<Longrightarrow>
   strchr_idx s i c = Some j"
proof (induction s i c rule: strchr_idx.induct)
  case (1 s i c)
  show ?case
  proof (cases "i = j")
    case True
    then show ?thesis using "1.prems" by (subst strchr_idx.simps) simp
  next
    case False
    then have "s ! i \<noteq> c" "i < length s" using "1.prems" by auto
    then show ?thesis using "1.IH" "1.prems" False by (subst strchr_idx.simps) auto
  qed
qed

lemma strchr_idx_none:
  "(\<forall>k. i \<le> k \<and> k < length s \<longrightarrow> s ! k \<noteq> c) \<Longrightarrow> strchr_idx s i c = None"
  by (induction s i c rule: strchr_idx.induct) (subst strchr_idx.simps, auto)

lemma skip_spaces_blanks:
  "(\<forall>j. i \<le> j \<and> j < length s \<longrightarrow> s ! j = CHR '' '') \<Longrightarrow> i \<le> length s \<Longrightarrow> skip_spaces s i = length s"
  by (induction s i rule: skip_spaces.induct) (subst skip_spaces.simps, auto simp: at_def)

lemma skip_spaces_stop: "at s i \<noteq> CHR '' '' \<Longrightarrow> skip_spaces s i = i"
  by (subst skip_spaces.simps) simp

lemma copy_seg_word:
  "(\<forall>j. a \<le> j \<and> j < e \<longrightarrow> at s j \<noteq> CHR '' '') \<Longrightarrow> a \<le> e \<Longrightarrow>
   copy_seg s a e out w = (e, out @ map (at s) [a..<e], w \<or> a < e)"
proof (induction s a e out w rule: copy_seg.induct)
  case (1 s start e out wordAdded)
  show ?case
  proof (cases "start < e")
    case True
    then have "copy_seg s start e out wordAdded = copy_seg s (Suc start) e (out @ [at s start]) True"
      using "1.prems" by (subst copy_seg.simps) simp
    moreover have "map (at s) [start..<e] = at s start # map (at s) [Suc start..<e]"
      using True by (simp add: upt_conv_Cons)
    ultimately show ?thesis using "1.IH"(2) True "1.prems" by auto
  next
    case False
    then show ?thesis using "1.prems" by (subst copy_seg.simps) simp
  qed
qed

lemma ebt_loop_end: "length s \<le> start \<Longrightarrow> ebt_loop s start out w = (False, out)"
  by (subst ebt_loop.simps) simp

text \<open>One group whose text has no blank: it is copied with one blank
  after it, and the scan goes on at its closing parenthesis.\<close>

lemma ebt_loop_word_group:
  assumes "start < length s" and "strchr_idx s start CHR ''('' = Some p"
    and "strchr_idx s (Suc p) CHR '')'' = Some e" and "Suc p < e"
    and "\<forall>j. Suc p \<le> j \<and> j < e \<longrightarrow> at s j \<noteq> CHR '' ''"
  shows "ebt_loop s start out w = ebt_loop s e (out @ map (at s) [Suc p..<e] @ '' '') False"
proof -
  have "skip_spaces s (Suc p) = Suc p" using assms(4,5) by (intro skip_spaces_stop) simp
  moreover have "copy_seg s (Suc p) e out w = (e, out @ map (at s) [Suc p..<e], True)"
    using copy_seg_word [OF assms(5)] assms(4) by simp
  ultimately show ?thesis using assms(1-4) by (subst ebt_loop.simps) simp
qed

lemma map_at_word: "map (at (c # w @ r)) [Suc 0..<Suc (length w)] = w"
proof -
  have "map (at (c # w @ r)) [Suc 0..<Suc (length w)] = map (\<lambda>j. at (c # w @ r) (Suc j)) [0..<length w]"
    by (simp only: map_Suc_upt [symmetric] map_map comp_def)
  also have "\<dots> = map (\<lambda>j. w ! j) [0..<length w]"
    by (rule map_cong) (simp_all add: at_def nth_append)
  also have "\<dots> = w" by (rule map_nth)
  finally show ?thesis .
qed

lemma ebt_loop_paren_word:
  assumes "w \<noteq> []" and "\<forall>c \<in> set w. c \<noteq> CHR '' '' \<and> c \<noteq> CHR ''('' \<and> c \<noteq> CHR '')''"
  shows "ebt_loop (CHR ''('' # w @ [CHR '')'']) 0 [] False = (True, w @ '' '')"
proof -
  let ?s = "CHR ''('' # w @ [CHR '')'']" and ?n = "length w"
  have wc: "?s ! Suc j \<noteq> CHR '' '' \<and> ?s ! Suc j \<noteq> CHR ''('' \<and> ?s ! Suc j \<noteq> CHR '')''" if "j < ?n" for j
    using bspec [OF assms(2) nth_mem [OF that]] that by (simp add: nth_append)
  have inner: "?s ! j \<noteq> CHR '' '' \<and> ?s ! j \<noteq> CHR ''('' \<and> ?s ! j \<noteq> CHR '')''"
    if a: "Suc 0 \<le> j" "j < Suc ?n" for j
  proof -
    obtain i where "j = Suc i" "i < ?n" using a by (cases j) auto
    then show ?thesis using wc by simp
  qed
  have o: "strchr_idx ?s 0 CHR ''('' = Some 0" by (rule strchr_idx_found) auto
  have c: "strchr_idx ?s (Suc 0) CHR '')'' = Some (Suc ?n)"
    by (rule strchr_idx_found) (use inner in auto)
  have "\<forall>j. Suc 0 \<le> j \<and> j < Suc ?n \<longrightarrow> at ?s j \<noteq> CHR '' ''"
    using inner by (simp add: at_def)
  then have "ebt_loop ?s 0 [] False = ebt_loop ?s (Suc ?n) (w @ '' '') False"
    using ebt_loop_word_group [OF _ o c] assms(1) map_at_word [of "CHR ''(''" w "[CHR '')'']"] by simp
  also have "strchr_idx ?s (Suc ?n) CHR ''('' = None"
    by (rule strchr_idx_none) (auto simp: less_Suc_eq)
  then have "ebt_loop ?s (Suc ?n) (w @ '' '') False = (True, w @ '' '')"
    by (subst ebt_loop.simps) simp
  finally show ?thesis .
qed

subsection \<open>Properties\<close>

text \<open>C33 (an unclosed empty group underflows the output). On a line that is \<open>'('\<close> followed only by blanks nothing is written, and the clean-up after the loop moves the output pointer before the start of the buffer and reads there: undefined behaviour.\<close>

theorem extract_unclosed_undefined:
  "extractBracketedText (CHR ''('' # replicate k CHR '' '') = None"
proof -
  let ?s = "CHR ''('' # replicate k CHR '' ''"
  have o: "strchr_idx ?s 0 CHR ''('' = Some 0" by (rule strchr_idx_found) auto
  have "\<forall>j. Suc 0 \<le> j \<and> j < length ?s \<longrightarrow> ?s ! j = CHR '' ''"
  proof (intro allI impI)
    fix j assume "Suc 0 \<le> j \<and> j < length ?s"
    then obtain i where "j = Suc i" "i < k" by (cases j) auto
    then show "?s ! j = CHR '' ''" by simp
  qed
  then have sk: "skip_spaces ?s (Suc 0) = Suc k" using skip_spaces_blanks [of 1 ?s] by simp
  have c: "strchr_idx ?s (Suc k) CHR '')'' = None" by (rule strchr_idx_none) simp
  have "ebt_loop ?s 0 [] False = ebt_loop ?s (Suc k) [] False"
    using o sk c by (subst ebt_loop.simps) simp
  also have "\<dots> = (False, [])" by (rule ebt_loop_end) simp
  finally show ?thesis by (simp add: extractBracketedText_def)
qed

text \<open>C34 (one group keeps its trailing blank). For a word without blanks or parentheses, \<open>"(word)"\<close> gives \<open>"word "\<close>: the function returns from inside the loop when no further \<open>'('\<close> follows, so the blank added after the last group is never removed.\<close>

theorem extract_single_group:
  assumes "w \<noteq> []" and "\<forall>c \<in> set w. c \<noteq> CHR '' '' \<and> c \<noteq> CHR ''('' \<and> c \<noteq> CHR '')''"
    and "length w < 127"
  shows "extractBracketedText (CHR ''('' # w @ [CHR '')'']) = Some (w @ '' '')"
  using ebt_loop_paren_word [OF assms(1,2)] assms(3) by (simp add: extractBracketedText_def)

theorem extract_single_group_witness: "extractBracketedText ''(abc)'' = Some ''abc ''"
  using extract_single_group [of "''abc''"] by simp

end
