(* ===== verification/Spec2Isabelle.thy ===== *)
theory Spec2Isabelle
  imports Directory ImItems QueueVector Airport QueueList DigitSort MatrixRows TextJustify Brackets
begin

text \<open>
  \<^bold>\<open>A verification library for the C programs of \<open>src/AaDS\<close>: the
  two-key-space hash tables of \<open>3_/outer_memory/hash_tab_om.c\<close>
  (file-backed) and \<open>3_/inner_memory/hash_tab_im.c\<close> (in memory), the
  passenger queues and the check-in simulation of \<open>2_\<close>, and the string
  and array exercises of \<open>0_-1_\<close>.\<close>

  \<^medskip>\<^bold>\<open>The program.\<close> A table of items with two key spaces lives in
  five binary files. \<open>table.bin\<close> holds the \<open>Table\<close> struct: the sorted
  slot array \<open>ks1\<close> (KS1, unsigned \<open>key1\<close>, each slot the head of a chain
  of releases in \<open>ks1_nodes.bin\<close>) and the bucket array \<open>ks2\<close> (KS2,
  string \<open>key2\<close> hashed into chains in \<open>ks2.bin\<close>). The records
  themselves are in \<open>data.bin\<close>. Deleted blocks are not erased but put on
  an in-memory free list, reused first-fit by later writes and saved to
  \<open>free_list.bin\<close> at exit. The in-memory variant keeps the same
  two key spaces on the heap: KS1 is a sorted slot array that doubles when
  full and halves when a quarter full, KS2 a bucket array that doubles at
  load 0.75 and halves at 0.25, rehashing every entry.

  \<^medskip>\<^bold>\<open>The theories.\<close>
  \<^item> \<open>Prelude\<close>: machine types (\<open>size_t\<close> as \<open>64 word\<close>, \<open>long\<close>
    offsets as \<open>int\<close>), list, option and word lemmas shared below.
  \<^item> \<open>Layout\<close>: the constants, \<open>enum FILE_TYPE\<close> and the structs of
    lines 24--88 as a \<open>datatype\<close> and \<open>record\<close>s.
  \<^item> \<open>FreeList\<close>: \<open>appendFreeList\<close>, \<open>findFreeBlock\<close>,
    \<open>saveFreeList\<close>, \<open>loadFreeList\<close> (lines 213--321), the files at the
    level of their bytes.
  \<^item> \<open>BlockStore\<close>: \<open>readFromFile\<close>, \<open>writeToFile\<close>,
    \<open>deleteFromFile\<close> (lines 150--209). A file of records is a map from
    offsets to records with its end offset; the machine state \<open>st\<close> is
    the table, the three record files and the free list. A read of an
    offset that holds no record leaves the C code with an uninitialised
    buffer: the model returns \<open>None\<close> there (undefined behaviour).
  \<^item> \<open>SortedArray\<close>: the array routines both variants share, over
    any key function: binary search \<open>bsearch\<close>, the insertion point
    \<open>find_insert_idx\<close>, \<open>shift_up\<close>/\<open>shift_down\<close>, with the lemmas
    that an insertion (deletion) of a slot keeps the keys sorted and inserts
    (removes) exactly that key.
  \<^item> \<open>Ks1\<close>: \<open>findKeyIdxKs1\<close> (binary search), \<open>insertKs1\<close>,
    \<open>deleteKeyKs1\<close> (lines 326--467), with the invariant \<open>ks1_inv\<close>
    (512 slots, the first \<open>csize1\<close> keys strictly increasing) and its
    preservation.
  \<^item> \<open>Ks2\<close>: \<open>hashFunction\<close> (\<open>None\<close> for \<open>msize2 = 0\<close>, where
    \<open>%\<close> is undefined), \<open>insertKs2\<close>, \<open>deleteKeyKs2\<close>
    (lines 468--584), with the invariant \<open>ks2_inv\<close> (512 buckets,
    \<open>csize2\<close> the number of non-empty buckets) and its preservation.
  \<^item> \<open>Items\<close>: \<open>findItemByKey1/2\<close>, \<open>findItem\<close>, \<open>deleteItem\<close>,
    \<open>insertItem\<close>, \<open>createItem\<close> and the effect of \<open>addItemDialog\<close>
    (lines 594--876, 1041--1054, 1179--1183), composed from the two
    indexes and the store as the C code calls them.
  \<^item> \<open>Directory\<close>: \<open>createDataFiles\<close>, \<open>saveTable\<close>,
    \<open>createTable\<close>, \<open>initTable\<close> and the start of \<open>main\<close>
    (lines 883--970, 1345--1354).
  \<^item> \<open>ImHeap\<close>: the structs of \<open>hash_tab_im.c\<close> (lines 13--58) and
    the heap: stores from addresses to items, release nodes and KS2 entries,
    with a fresh-address counter (\<open>malloc\<close>) and removal (\<open>free\<close>,
    a double free is \<open>None\<close>); the machine state \<open>imst\<close> also holds
    the \<open>static inResize\<close> flag. The float load tests are exact
    comparisons, which single precision matches for sizes below \<open>2^22\<close>.
  \<^item> \<open>ImKs1\<close>: \<open>initKs1\<close>, \<open>findKeyIdxKs1\<close>, \<open>resizeKs1\<close>,
    \<open>insertNewKeyKs1\<close>, \<open>insertKs1\<close>, \<open>deleteKeyKs1\<close> (lines
    73--237) with the invariant \<open>ks1_inv_im\<close> (array of \<open>msize1\<close>
    slots, a free slot left, keys sorted).
  \<^item> \<open>ImKs2\<close>: \<open>initKs2\<close>, \<open>hashFunction\<close>, \<open>freeKs2\<close>,
    \<open>resizeKs2\<close>, \<open>createNewKeyKs2\<close>, \<open>insertKs2\<close>,
    \<open>deleteKeyKs2\<close> (lines 251--440); \<open>insertKs2\<close> and
    \<open>resizeKs2\<close> call each other, so they are one
    \<open>partial_function\<close> \<open>ks2_op\<close> over a datatype of calls.
  \<^item> \<open>ImItems\<close>: \<open>initTable\<close>, \<open>findItemByKey1/2\<close>,
    \<open>findItem\<close>, \<open>deleteItem\<close>, \<open>insertItem\<close>, \<open>createItem\<close>,
    \<open>freeTable\<close> and the effect of \<open>addItemDialog\<close> (lines 459--834,
    960--965).
  \<^item> \<open>QueueSpec\<close>: the \<open>Passenger\<close> struct of \<open>2_/queue.h\<close> and the
    abstract queue (a list, \<open>qspec_step\<close>) both implementations refine.
  \<^item> \<open>QueueVector\<close>: every function of \<open>2_/queue_vector.c\<close> on the
    struct value (array, \<open>head\<close>, \<open>tail\<close>, \<open>capacity\<close>), \<open>%\<close> by zero as
    \<open>None\<close>; invariant \<open>invV\<close> and abstraction \<open>absV\<close> to the list of
    the ring's slots from \<open>head\<close> to \<open>tail\<close>.
  \<^item> \<open>QueueList\<close>: \<open>2_/queue_list.c\<close> with nodes in a heap store and
    queue structs on the heap or in locals (\<open>qloc\<close>); invariant \<open>invL\<close>
    (an acyclic chain from \<open>head\<close> ending at \<open>tail\<close>, \<open>qseg\<close>) and
    abstraction \<open>absL\<close>.
  \<^item> \<open>Airport\<close>: the time loop of \<open>2_/main.c\<close> over ring-buffer
    desks: arrivals (\<open>arrive_one\<close>, with the do-while choosing a second
    desk as \<open>partial_function\<close> \<open>pick_idx2\<close>), service
    (\<open>serve_one\<close>), the status prints as output, \<open>rand()\<close> as a parameter
    stream, \<open>main\<close> after input as \<open>airport_main\<close>; the invariant
    \<open>airport_inv\<close> (the desk count, the passenger count, every desk a
    well-formed ring of capacity \<open>QUEUE_CAPACITY\<close>) is kept by every step.
  \<^item> \<open>DigitSort\<close>: \<open>digit_count\<close>, \<open>prod_sum\<close> and the XOR-swap
    selection \<open>sort\<close> of \<open>0_-1_/0_.c\<close>, with C's truncating \<open>/\<close> and
    \<open>%\<close> as \<open>sdiv\<close> and \<open>smod\<close>.
  \<^item> \<open>MatrixRows\<close>: \<open>transformMatrix\<close> of \<open>0_-1_/1_.c\<close> on rows as
    lists.
  \<^item> \<open>TextJustify\<close>: \<open>removeExtraSpaces\<close> and \<open>justify\<close> of
    \<open>0_-1_/05b_.c\<close>, the fixed arrays \<open>words[80][80]\<close> as the domain
    where the result is defined.
  \<^item> \<open>Brackets\<close>: \<open>extractBracketedText\<close> and \<open>stripString\<close> of
    \<open>0_-1_/05a_.c\<close>, pointers as indices into the string and the output
    buffer as the list written so far.

  \<^medskip>\<^bold>\<open>Loops.\<close> Loops over index ranges are \<open>function\<close>s with a
  \<open>measure\<close> (\<open>bsearch\<close>, \<open>find_insert_idx\<close>, \<open>shift_up\<close>,
  \<open>shift_down\<close>, \<open>justify_lines\<close>, \<open>ebt_loop\<close>, the time loop of
  \<open>main.c\<close>). Walks along offset chains in the files are
  \<open>partial_function (option)\<close>: on a cyclic chain they do not return,
  which is the value \<open>None\<close>; no fuel bound is chosen. The same holds for
  the heap chains of the in-memory variant and of the list queue, for the
  \<open>freeTable\<close> loop, whose non-termination on one input is proved (C12),
  and for the do-while of \<open>main.c\<close> that draws a second desk, which
  returns under a fairness condition on \<open>rand()\<close> (C21) and never with a
  single desk (C24).

  \<^medskip>\<^bold>\<open>What is shown.\<close> The index operations keep their invariants and
  do what they promise on the key sets (C1--C5); binary search finds exactly
  the occupied slots with the key (C2). The rollback of a single release
  frees its node twice and keeps the key (C6); the hash is below 256 so half
  of the buckets stay unused (C7); the free list is written with 20 bytes
  per block and read with 24 (C8); freed blocks are reused first-fit (C9).
  For the in-memory variant, insertion and deletion in KS1 with resizing
  keep its invariant (C10, C11); \<open>freeTable\<close> hangs when a key equals
  \<open>(size_t)-1\<close> (C12), which \<open>strtoul\<close> accepts from the input \<open>-1\<close>.
  Concrete runs (lemmas without a claim number) record the remaining
  defects and behaviours on fixed tables: a deletion by \<open>key2\<close> alone
  leaves an empty KS1 slot on which the next insertion reads offset
  \<open>-1\<close>; two items under one \<open>key1\<close> get releases 0 and 1; both arrays
  of the in-memory table grow and keep their entries; \<open>freeTable\<close> frees
  every allocation.

  Both queues refine the list queue: \<open>enqueue\<close> and \<open>dequeue\<close> keep
  \<open>invV\<close>/\<open>invL\<close> and act on the abstract list as \<open>qspec_step\<close> does
  (C13, C14, C17, C18). The ring holds one passenger less than its capacity
  (C15); \<open>printQueueState\<close> of the ring returns and prints the queue front
  to back (C16). The list variant's \<open>printQueueState\<close> frees a local
  struct on every call (C19); its \<open>qSize\<close> walk returns the length (C20).
  In \<open>main.c\<close> (theory \<open>Airport\<close>, with \<open>rand()\<close> a parameter
  sequence of non-negative values) the simulation returns when the drawn
  desks do not settle on one residue, and every printed status lists every
  desk with at most two passengers (C21); an arrival joins the shorter of
  two distinct desks or is postponed when that desk is full (C22); service
  decrements the front passenger's time and dequeues it at zero (C23); a
  single desk makes the simulation loop forever at the first arrival
  (C24). For \<open>0_-1_\<close>: \<open>digit_count\<close> and \<open>prod_sum\<close> compute the digit
  functions (C25, C26); the XOR swap swaps (C27) and \<open>sort\<close> sorts by
  both criteria (C28); \<open>transformRow\<close> keeps the suffix from the first
  minimum (C29); \<open>removeExtraSpaces\<close> squeezes blanks (C30); justified
  lines keep the words, with one-word lines one column too wide (C31), and
  \<open>justify\<close> is defined exactly on texts that fit its arrays (C32);
  \<open>extractBracketedText\<close> reads before its buffer on an empty group (C33)
  and leaves a trailing blank after a single group (C34).

  \<^medskip>\<^bold>\<open>Not modelled.\<close> Console input and validation, printing
  (\<open>printTable\<close>, \<open>printSearchResults\<close>, menus) and \<open>logError\<close> have no
  effect on the state. I/O failures of \<open>fopen\<close>/\<open>fwrite\<close> other than the
  short read are assumed not to happen; \<open>malloc\<close> succeeds. Floats are
  kept as their bit patterns, never computed on. In \<open>2_\<close> and \<open>0_-1_\<close>
  the parsing of input with \<open>scanf\<close> and the printing loops of
  \<open>main\<close> are not modelled: the functions take the values read, and the
  simulation returns the ids it prints. The threaded binary search tree of
  \<open>4_/4_a\<close>, the k-d tree of \<open>4_/4_b\<close> and the graph algorithms of
  \<open>5_\<close> (pointer structures with parent and thread links, \<open>double\<close>
  coordinates and menu-driven I/O, several hundred lines each) are not
  modelled in this development.
\<close>

definition demo_item :: Item where
  "demo_item = \<lparr>num1 = 0, num2 = 0, item_note = ''n'', item_release = 0, item_key1 = 5, item_key2 = ''a''\<rparr>"

definition demo_empty :: st where
  "demo_empty = \<lparr>tbl = emptyTable, dataF = emptyFile, ks1F = emptyFile, ks2F = emptyFile, freeList = []\<rparr>"

definition demo_st :: st where
  "demo_st = demo_empty\<lparr>dataF := \<lparr>blocks = [0 \<mapsto> demo_item], eof = 160\<rparr>\<rparr>"

definition demo_st1 :: st where
  "demo_st1 = snd (the (insertKs1 demo_st 5 0))"

definition demo_st2 :: st where
  "demo_st2 = snd (the (insertKs2 demo_st ''a'' 0))"

definition im_demo :: "imst option" where
  "im_demo = do {
     (_, s1) \<leftarrow> addItem_im (initTable_im 2 2) 1 ''a'' 0 0 ''x'';
     (_, s2) \<leftarrow> addItem_im s1 2 ''b'' 0 0 ''x'';
     (_, s3) \<leftarrow> addItem_im s2 1 ''c'' 0 0 ''x'';
     (_, s4) \<leftarrow> addItem_im s3 3 ''d'' 0 0 ''x'';
     (_, s5) \<leftarrow> addItem_im s4 5 ''e'' 0 0 ''x'';
     (_, s6) \<leftarrow> addItem_im s5 4 ''f'' 0 0 ''x'';
     Some s6
   }"

definition im_st0 :: imst where
  "im_st0 = snd (createItem_im (initTable_im 2 2) 5 ''a'' 0 0 ''n'')"

text \<open>C1 (KS1 insertion keeps the index). From a table whose KS1 part satisfies the invariant, \<open>insertKs1\<close> yields a table that satisfies it, whose key set is the old one with the new key, and whose KS2 part is unchanged.\<close>

theorem insertKs1_keeps_index:
  assumes "ks1_inv (tbl s)" and "insertKs1 s k off = Some (r, s')"
  shows "ks1_inv (tbl s') \<and> set (ks1_keys (tbl s')) = insert k (set (ks1_keys (tbl s))) \<and>
         ks2 (tbl s') = ks2 (tbl s) \<and> csize2 (tbl s') = csize2 (tbl s)"
  using insertKs1_ks1_inv [OF assms] insertKs1_ks2_frame [OF assms(2)] by simp

theorem insertKs1_keeps_index_witness:
  "ks1_inv (tbl demo_st) \<and>
   (\<exists>r s'. insertKs1 demo_st 5 0 = Some (r, s') \<and> ks1_inv (tbl s') \<and> set (ks1_keys (tbl s')) = {5})"
proof -
  have i: "ks1_inv (tbl demo_st)" by code_simp
  have "insertKs1 demo_st 5 0 \<noteq> None" by code_simp
  then obtain r s' where e: "insertKs1 demo_st 5 0 = Some (r, s')" by auto
  have k: "ks1_keys (tbl demo_st) = []" by code_simp
  show ?thesis using insertKs1_keeps_index [OF i e] i e k by auto
qed

text \<open>C2 (binary search is exact). On a table satisfying the KS1 invariant, \<open>findKeyIdxKs1\<close> returns index \<open>i\<close> exactly when \<open>i\<close> is an occupied slot holding the key.\<close>

theorem findKeyIdxKs1_correct:
  assumes "ks1_inv t"
  shows "findKeyIdxKs1 t k = Some i \<longleftrightarrow> i < csize1 t \<and> key (ks1 t ! i) = k"
  using assms findKeyIdxKs1_Some [of t k i] findKeyIdxKs1_complete [of t i k]
  by (auto simp: ks1_inv_def)

theorem findKeyIdxKs1_correct_witness:
  "ks1_inv (tbl demo_st1) \<and> findKeyIdxKs1 (tbl demo_st1) 5 = Some 0"
proof -
  have i: "ks1_inv (tbl demo_st1)" by code_simp
  have "0 < csize1 (tbl demo_st1) \<and> key (ks1 (tbl demo_st1) ! 0) = 5" by code_simp
  then show ?thesis using findKeyIdxKs1_correct [OF i, of 5 0] i by simp
qed

text \<open>C3 (KS1 deletion of all releases). \<open>deleteKeyKs1\<close> with \<open>allReleases\<close> keeps the KS1 invariant, removes exactly the key from the key sequence (keeping the order of the others), and leaves KS2 and its file alone.\<close>

theorem deleteKeyKs1_all_releases:
  assumes inv: "ks1_inv (tbl s)" and r: "deleteKeyKs1 s k True = Some (r, s')"
  shows "ks1_inv (tbl s') \<and> ks1_keys (tbl s') = filter (\<lambda>x. x \<noteq> k) (ks1_keys (tbl s)) \<and>
         ks2 (tbl s') = ks2 (tbl s) \<and> csize2 (tbl s') = csize2 (tbl s) \<and> ks2F s' = ks2F s"
proof -
  have d: "ks1_inv (tbl s') \<and> ks1_keys (tbl s') = (case findKeyIdxKs1 (tbl s) k of
             None \<Rightarrow> ks1_keys (tbl s) | Some i \<Rightarrow> remove_at i (ks1_keys (tbl s))) \<and>
           ks2 (tbl s') = ks2 (tbl s) \<and> csize2 (tbl s') = csize2 (tbl s) \<and>
           msize2 (tbl s') = msize2 (tbl s) \<and> ks2F s' = ks2F s"
    by (rule deleteKeyKs1_True [OF inv r])
  have s: "sorted_wrt (<) (ks1_keys (tbl s))" and n: "csize1 (tbl s) \<le> length (ks1 (tbl s))"
    using inv by (auto simp: ks1_inv_def)
  show ?thesis
  proof (cases "findKeyIdxKs1 (tbl s) k")
    case None
    then have "k \<notin> set (ks1_keys (tbl s))" using findKeyIdxKs1_None [OF s n] by simp
    then have "filter (\<lambda>x. x \<noteq> k) (ks1_keys (tbl s)) = ks1_keys (tbl s)"
      by (auto simp: filter_id_conv)
    with d None show ?thesis by simp
  next
    case (Some i)
    have i: "i < csize1 (tbl s)" "key (ks1 (tbl s) ! i) = k" using findKeyIdxKs1_Some [OF Some] by auto
    then have "ks1_keys (tbl s) ! i = k" "i < length (ks1_keys (tbl s))"
      using ks1_keys_nth [OF i(1) n] n by (auto simp: ks1_keys_def)
    moreover have "distinct (ks1_keys (tbl s))" using s by (simp add: strict_sorted_iff)
    ultimately have "remove_at i (ks1_keys (tbl s)) = filter (\<lambda>x. x \<noteq> k) (ks1_keys (tbl s))"
      using remove_at_filter by metis
    with d Some show ?thesis by simp
  qed
qed

theorem deleteKeyKs1_all_releases_witness:
  "ks1_inv (tbl demo_st1) \<and> (\<exists>r s'. deleteKeyKs1 demo_st1 5 True = Some (r, s') \<and> ks1_keys (tbl s') = [])"
proof -
  have i: "ks1_inv (tbl demo_st1)" by code_simp
  have "deleteKeyKs1 demo_st1 5 True \<noteq> None" by code_simp
  then obtain r s' where e: "deleteKeyKs1 demo_st1 5 True = Some (r, s')" by auto
  have k: "ks1_keys (tbl demo_st1) = [5]" by code_simp
  show ?thesis using deleteKeyKs1_all_releases [OF i e] i e k by auto
qed

text \<open>C4 (KS2 insertion keeps the index). \<open>insertKs2\<close> keeps the KS2 invariant (\<open>csize2\<close> counts the non-empty buckets) and leaves the KS1 part of the table alone.\<close>

theorem insertKs2_keeps_index:
  assumes "ks2_inv s" and "insertKs2 s k off = Some (r, s')"
  shows "ks2_inv s' \<and> ks1 (tbl s') = ks1 (tbl s) \<and> csize1 (tbl s') = csize1 (tbl s)"
proof -
  have "ks2_inv s' \<and> tbl s' \<lparr>ks2 := ks2 (tbl s), csize2 := csize2 (tbl s)\<rparr> = tbl s"
    by (rule insertKs2_inv [OF assms])
  then show ?thesis by (metis Table.select_convs(1,5) Table.surjective Table.update_convs(2,6))
qed

theorem insertKs2_keeps_index_witness:
  "ks2_inv demo_st \<and> (\<exists>r s'. insertKs2 demo_st ''a'' 0 = Some (r, s') \<and> ks2_inv s')"
proof -
  have i: "ks2_inv demo_st" by code_simp
  have "insertKs2 demo_st ''a'' 0 \<noteq> None" by code_simp
  then obtain r s' where e: "insertKs2 demo_st ''a'' 0 = Some (r, s')" by auto
  show ?thesis using insertKs2_keeps_index [OF i e] i e by auto
qed

text \<open>C5 (KS2 deletion keeps the index). \<open>deleteKeyKs2\<close> keeps the KS2 invariant and leaves the KS1 part of the table alone.\<close>

theorem deleteKeyKs2_keeps_index:
  assumes "ks2_inv s" and "deleteKeyKs2 s k = Some (r, s')"
  shows "ks2_inv s' \<and> ks1 (tbl s') = ks1 (tbl s) \<and> csize1 (tbl s') = csize1 (tbl s)"
proof -
  have "ks2_inv s' \<and> tbl s' \<lparr>ks2 := ks2 (tbl s), csize2 := csize2 (tbl s)\<rparr> = tbl s"
    by (rule deleteKeyKs2_inv [OF assms])
  then show ?thesis by (metis Table.select_convs(1,5) Table.surjective Table.update_convs(2,6))
qed

theorem deleteKeyKs2_keeps_index_witness:
  "ks2_inv demo_st2 \<and> (\<exists>s'. deleteKeyKs2 demo_st2 ''a'' = Some (0, s') \<and> ks2_inv s' \<and> csize2 (tbl s') = 0)"
proof -
  have i: "ks2_inv demo_st2" by code_simp
  have "deleteKeyKs2 demo_st2 ''a'' \<noteq> None" by code_simp
  then obtain r s' where e: "deleteKeyKs2 demo_st2 ''a'' = Some (r, s')" by auto
  have "map_option (\<lambda>(r, s'). (r, csize2 (tbl s'))) (deleteKeyKs2 demo_st2 ''a'') = Some (0, 0)"
    by code_simp
  then have "r = 0 \<and> csize2 (tbl s') = 0" using e by simp
  then show ?thesis using deleteKeyKs2_keeps_index [OF i e] i e by auto
qed

text \<open>C6 (rollback of a single release). \<open>deleteKeyKs1 \<dots> False\<close> tests \<open>nextNodeOffset == 0\<close> for a one-release chain, but a last node holds \<open>NULL_OFFSET = -1\<close>. On a key whose chain has one node, the call returns 0, keeps the key and its table unchanged, rewrites the node in place, and leaves its block on the free list: the live node is free for the next write.\<close>

theorem deleteKeyKs1_single_release_rollback:
  assumes k: "findKeyIdxKs1 (tbl s) k = Some i"
    and n: "rdNode s (nodeOffset (ks1 (tbl s) ! i)) = Some n" and last: "nextNodeOffset n = NULL_OFFSET"
  defines "c \<equiv> nodeOffset (ks1 (tbl s) ! i)"
  shows "\<exists>s'. deleteKeyKs1 s k False = Some (0, s') \<and> tbl s' = tbl s \<and> rdNode s' c = Some n \<and>
              freeList s' = appendFreeList (freeList s) c sizeof_Node1 KS1_NODES_FILE"
proof -
  have c0: "c \<noteq> -1" using n by (auto simp: c_def rdNode_def readFromFile_def)
  have l2: "ks1_last2 (ks1F s) c c n = Some (c, c)"
    using last by (subst ks1_last2.simps) simp
  have rd: "rdNode (delNode s c) c = Some n" using n by (simp add: c_def rdNode_def delNode_def)
  have nn: "n\<lparr>nextNodeOffset := NULL_OFFSET\<rparr> = n" using last by (cases n) simp
  have step: "deleteKeyKs1 s k False = Some (0, fst (wrNode (delNode (delNode s c) c) n))"
    using deleteKeyKs1_False_step [OF k n _ l2 [unfolded c_def] rd [unfolded c_def]] last nn
    by (simp add: c_def)
  have "delNode (delNode s c) c = delNode (s\<lparr>freeList := appendFreeList (freeList s) c sizeof_Node1 KS1_NODES_FILE\<rparr>) c"
    by (simp add: delNode_def deleteFromFile_def)
  then show ?thesis
    using step wrNode_reuse [OF c0] n c0 by (auto simp: rdNode_def readFromFile_def c_def)
qed

theorem deleteKeyKs1_single_release_rollback_witness:
  "findKeyIdxKs1 (tbl demo_st1) 5 = Some 0 \<and>
   rdNode demo_st1 (nodeOffset (ks1 (tbl demo_st1) ! 0)) = Some \<lparr>release = 0, itemOffset = 0, nextNodeOffset = NULL_OFFSET\<rparr> \<and>
   (\<exists>s'. deleteKeyKs1 demo_st1 5 False = Some (0, s') \<and> ks1_keys (tbl s') = [5] \<and>
        freeList s' = [\<lparr>fb_offset = 0, fb_size = 24, listType = file_type_code KS1_NODES_FILE\<rparr>])"
proof -
  have k: "findKeyIdxKs1 (tbl demo_st1) 5 = Some 0" by code_simp
  have n: "rdNode demo_st1 (nodeOffset (ks1 (tbl demo_st1) ! 0)) = Some \<lparr>release = 0, itemOffset = 0, nextNodeOffset = NULL_OFFSET\<rparr>"
    by code_simp
  have o: "nodeOffset (ks1 (tbl demo_st1) ! 0) = 0" "freeList demo_st1 = []" "ks1_keys (tbl demo_st1) = [5]"
    by code_simp+
  obtain s' where "deleteKeyKs1 demo_st1 5 False = Some (0, s')" "tbl s' = tbl demo_st1"
      "freeList s' = appendFreeList (freeList demo_st1) 0 sizeof_Node1 KS1_NODES_FILE"
    using deleteKeyKs1_single_release_rollback [OF k n] o by auto
  then show ?thesis using k n o by (auto simp: appendFreeList_def)
qed

text \<open>A concrete run (deletion by key2 alone leaves an empty KS1 slot). After adding an
  item with \<open>key1 = 5\<close>, deleting it by \<open>key2\<close> alone passes
  \<open>INVALID_KEY1\<close> on to \<open>deleteKeyKs1\<close>, which does not find it: the slot
  of key 5 stays, with \<open>nodeOffset = NULL_OFFSET\<close>, and the next insertion
  under key 5 reads the node at offset \<open>-1\<close> (undefined behaviour, \<open>None\<close>).\<close>

theorem deleteItem_key2_leaves_empty_slot:
  "do {
     (_, s1) \<leftarrow> addItem demo_empty 5 ''a'' 0 0 ''x'';
     (r, s2) \<leftarrow> deleteItem s1 INVALID_KEY1 (Some ''a'');
     Some (r, ks1_keys (tbl s2), nodeOffset (ks1 (tbl s2) ! 0),
           Option.is_none (addItem s2 5 ''b'' 0 0 ''y''))
   } = Some (0, [5], NULL_OFFSET, True)"
  by code_simp

text \<open>A concrete run (releases, spec section 8). Two items added under the same
  \<open>key1\<close> get releases 0 and 1, and the search by \<open>key1\<close> returns both in
  release order.\<close>

theorem addItem_releases:
  "do {
     (_, s1) \<leftarrow> addItem demo_empty 1 ''a'' 0 0 ''x'';
     (_, s2) \<leftarrow> addItem s1 1 ''b'' 0 0 ''y'';
     findItem s2 1 None
   } = Some (Some
     [\<lparr>num1 = 0, num2 = 0, item_note = ''x'', item_release = 0, item_key1 = 1, item_key2 = ''a''\<rparr>,
      \<lparr>num1 = 0, num2 = 0, item_note = ''y'', item_release = 1, item_key1 = 1, item_key2 = ''b''\<rparr>])"
  by code_simp

text \<open>C7 (hash range). The hash is the XOR of the bytes of the key reduced modulo \<open>msize2\<close> (undefined for \<open>msize2 = 0\<close>); an XOR of bytes is a byte, so the hash is below 256 whatever the table size: buckets 256--511 of the 512 are never used.\<close>

theorem hashFunction_lt_256:
  "(case hashFunction t k of None \<Rightarrow> word_of_nat (msize2 t) = (0 :: size_t) | Some h \<Rightarrow> h < 256)"
proof -
  let ?h = "foldl (\<lambda>hash c. hash XOR word_of_nat (of_char c)) (0 :: size_t) k"
  have "?h < 256" by (rule xor_fold_lt_256) simp
  then have "unat ?h < 256" by (simp add: word_less_nat_alt)
  moreover have "unat (?h mod word_of_nat (msize2 t)) \<le> unat ?h"
    unfolding unat_mod by (rule mod_less_eq_dividend)
  ultimately show ?thesis unfolding hashFunction_def by simp
qed


text \<open>C9 (freed blocks are reused). A block freed by \<open>deleteFromFile\<close>
  is the one the next write of a record of at most its size and of the same
  file takes: the write lands at that offset, the free list is as before
  the deletion, and the record reads back.\<close>

theorem freed_block_reused:
  assumes "0 \<le> off" and "sz' \<le> sz"
  shows "(case writeToFile ty sz' v f (deleteFromFile ty off sz fl) of
           (f', fl', off') \<Rightarrow> off' = off \<and> fl' = fl \<and> readFromFile f' off = Some v)"
proof -
  have "off \<noteq> -1" using assms(1) by simp
  then show ?thesis using assms by (simp add: writeToFile_reuse readFromFile_def)
qed

theorem freed_block_reused_witness:
  "(case writeToFile KS1_NODES_FILE 24 (7 :: nat) emptyFile (deleteFromFile KS1_NODES_FILE 48 24 []) of
     (f', fl', off') \<Rightarrow> off' = 48 \<and> fl' = [] \<and> readFromFile f' 48 = Some 7)"
  using freed_block_reused [where off = 48 and sz' = 24 and sz = 24 and ty = KS1_NODES_FILE
      and v = "7 :: nat" and f = emptyFile and fl = "[]"] by simp

text \<open>C10 (in-memory KS1 insertion keeps the index). In \<open>hash_tab_im.c\<close>,
  \<open>insertKs1\<close> (which doubles the slot array when it is nearly full) keeps
  the invariant \<open>ks1_inv_im\<close> (the array has \<open>msize1\<close> slots, fewer are
  occupied, keys strictly increasing) and adds exactly the key.\<close>

theorem insertKs1_im_keeps_index:
  assumes inv: "ks1_inv_im (tbl_im s)" and r: "insertKs1_im s k item = Some (rv, s')"
  shows "ks1_inv_im (tbl_im s') \<and> set (ks1_keys_im (tbl_im s')) = insert k (set (ks1_keys_im (tbl_im s)))"
proof (cases "findKeyIdxKs1_im (tbl_im s) k")
  case None
  then show ?thesis by (rule insertKs1_im_new_inv [OF inv _ r])
next
  case (Some i)
  then show ?thesis by (rule insertKs1_im_found_inv [OF inv _ r])
qed

theorem insertKs1_im_keeps_index_witness:
  "ks1_inv_im (tbl_im im_st0) \<and>
   (\<exists>r s'. insertKs1_im im_st0 5 1 = Some (r, s') \<and> ks1_inv_im (tbl_im s') \<and> set (ks1_keys_im (tbl_im s')) = {5})"
proof -
  have i: "ks1_inv_im (tbl_im im_st0)" by code_simp
  have "insertKs1_im im_st0 5 1 \<noteq> None" by code_simp
  then obtain r s' where e: "insertKs1_im im_st0 5 1 = Some (r, s')" by auto
  have k: "ks1_keys_im (tbl_im im_st0) = []" by code_simp
  show ?thesis using insertKs1_im_keeps_index [OF i e] i e k by auto
qed

text \<open>C11 (in-memory KS1 deletion). \<open>deleteKeyKs1\<close> with \<open>allReleases\<close>,
  which halves the array when it is less than half full, keeps the
  invariant and removes exactly the key.\<close>

theorem deleteKeyKs1_im_all_releases:
  assumes inv: "ks1_inv_im (tbl_im s)" and r: "deleteKeyKs1_im s k True = Some (rv, s')"
  shows "ks1_inv_im (tbl_im s') \<and> ks1_keys_im (tbl_im s') = filter (\<lambda>x. x \<noteq> k) (ks1_keys_im (tbl_im s))"
proof (cases "findKeyIdxKs1_im (tbl_im s) k")
  case None
  then have "k \<notin> set (ks1_keys_im (tbl_im s))" using findKeyIdxKs1_im_None [OF inv] by simp
  then have "filter (\<lambda>x. x \<noteq> k) (ks1_keys_im (tbl_im s)) = ks1_keys_im (tbl_im s)"
    by (auto simp: filter_id_conv)
  with r None inv show ?thesis by (simp add: deleteKeyKs1_im.simps)
next
  case (Some i)
  note d = deleteKeyKs1_im_found [OF inv Some r]
  have "distinct (ks1_keys_im (tbl_im s))" using inv by (simp add: ks1_inv_im_def strict_sorted_iff)
  then have "remove_at i (ks1_keys_im (tbl_im s)) = filter (\<lambda>x. x \<noteq> k) (ks1_keys_im (tbl_im s))"
    using d remove_at_filter by metis
  with d show ?thesis by simp
qed

theorem deleteKeyKs1_im_all_releases_witness:
  "ks1_inv_im (tbl_im (the im_demo)) \<and>
   (\<exists>r s'. deleteKeyKs1_im (the im_demo) 3 True = Some (r, s') \<and> ks1_keys_im (tbl_im s') = [1, 2, 4, 5])"
proof -
  have i: "ks1_inv_im (tbl_im (the im_demo))" by code_simp
  have "deleteKeyKs1_im (the im_demo) 3 True \<noteq> None" by code_simp
  then obtain r s' where e: "deleteKeyKs1_im (the im_demo) 3 True = Some (r, s')" by auto
  have k: "ks1_keys_im (tbl_im (the im_demo)) = [1, 2, 3, 4, 5]" by code_simp
  show ?thesis using deleteKeyKs1_im_all_releases [OF i e] i e k by auto
qed

text \<open>C12 (the destructor may not return). \<open>freeTable\<close> deletes the keys
  \<open>0, 1, 2, \<dots>\<close> by \<open>deleteItem(table, i, NULL)\<close> until \<open>csize1 = 0\<close>; but
  \<open>deleteItem\<close> refuses \<open>key1 = INVALID_KEY1\<close> (\<open>(size_t)-1\<close>, which the
  input routine accepts as \<open>-1\<close>). On a table whose one key is
  \<open>INVALID_KEY1\<close> the loop never ends: its value is \<open>None\<close>.\<close>

theorem freeTable_loop_stuck:
  assumes c: "csize1_im (tbl_im s) = 1" and k: "key_im (ks1_im (tbl_im s) ! 0) = INVALID_KEY1"
  shows "freeTable_loop s i = None"
proof -
  have ne: "s' \<noteq> s" if a: "freeTable_loop s' i' = Some y" for s' i' y
  proof (rule freeTable_loop.raw_induct [where P = "\<lambda>s' i' y. s' \<noteq> s", OF _ a])
    fix f :: "imst \<Rightarrow> size_t \<Rightarrow> imst option" and s'' i'' y'
    assume IH: "\<And>s0 i0 y0. f s0 i0 = Some y0 \<Longrightarrow> s0 \<noteq> s"
      and body: "(if csize1_im (tbl_im s'') = 0 then Some s''
                  else deleteItem_im s'' i'' None \<bind> (\<lambda>(_, s'). f s' (i'' + 1))) = Some y'"
    show "s'' \<noteq> s"
    proof
      assume "s'' = s"
      with body c deleteItem_im_stuck [OF c k, of i''] have "f s (i'' + 1) = Some y'" by simp
      with IH show False by blast
    qed
  qed
  show ?thesis
  proof (cases "freeTable_loop s i")
    case (Some y)
    with ne show ?thesis by blast
  qed
qed

theorem freeTable_loop_stuck_witness:
  "Option.bind (addItem_im (initTable_im 2 2) INVALID_KEY1 ''a'' 0 0 ''n'') (\<lambda>(_, s). freeTable_im s) = None"
proof -
  have "addItem_im (initTable_im 2 2) INVALID_KEY1 ''a'' 0 0 ''n'' \<noteq> None" by code_simp
  then obtain r s where a: "addItem_im (initTable_im 2 2) INVALID_KEY1 ''a'' 0 0 ''n'' = Some (r, s)" by auto
  have "csize1_im (tbl_im s) = 1 \<and> key_im (ks1_im (tbl_im s) ! 0) = INVALID_KEY1"
  proof -
    have "map_option (\<lambda>(r, s). (csize1_im (tbl_im s), key_im (ks1_im (tbl_im s) ! 0)))
            (addItem_im (initTable_im 2 2) INVALID_KEY1 ''a'' 0 0 ''n'') = Some (1, INVALID_KEY1)"
      by code_simp
    with a show ?thesis by simp
  qed
  with a freeTable_loop_stuck show ?thesis by (simp add: freeTable_im_def)
qed

text \<open>A concrete run (releases, spec section 8, in-memory variant). Two items added
  under the same \<open>key1\<close> get releases 0 and 1 and \<open>findItem\<close> by \<open>key1\<close>
  returns them in that order.\<close>

theorem im_releases:
  "do {
     (_, s1) \<leftarrow> addItem_im (initTable_im 2 2) 1 ''a'' 0 0 ''x'';
     (_, s2) \<leftarrow> addItem_im s1 1 ''b'' 0 0 ''y'';
     r \<leftarrow> findItem_im s2 1 None;
     ps \<leftarrow> r;
     those (map (items_im s2) ps)
   } = Some
     [\<lparr>item_info_im = \<lparr>num1_im = 0, num2_im = 0, note_im = ''x''\<rparr>, item_release_im = 0, item_key1_im = 1, item_key2_im = ''a''\<rparr>,
      \<lparr>item_info_im = \<lparr>num1_im = 0, num2_im = 0, note_im = ''y''\<rparr>, item_release_im = 1, item_key1_im = 1, item_key2_im = ''b''\<rparr>]"
  by code_simp

text \<open>A concrete run (growth keeps the entries). Starting from \<open>initTable(2, 2)\<close> as
  \<open>main\<close> does, six insertions grow KS1 and KS2 (with rehashing) to 8
  slots each; every \<open>key2\<close> still finds its item.\<close>

theorem im_resize_keeps_entries:
  "map_option (\<lambda>s. (msize1_im (tbl_im s), msize2_im (tbl_im s), csize1_im (tbl_im s),
       map (\<lambda>k. map_option (map_option (\<lambda>p. map_option item_key2_im (items_im s p))) (findItemByKey2_im s k))
           [''a'', ''b'', ''c'', ''d'', ''e'', ''f''])) im_demo =
   Some (8, 8, 5, [Some (Some (Some ''a'')), Some (Some (Some ''b'')), Some (Some (Some ''c'')),
                   Some (Some (Some ''d'')), Some (Some (Some ''e'')), Some (Some (Some ''f''))])"
  by code_simp

text \<open>A concrete run (no leak at exit). On that table \<open>freeTable\<close> returns and frees
  every item, node and chain entry allocated.\<close>

theorem im_freeTable_frees_all:
  "map_option (\<lambda>s. map_option (\<lambda>s'. list_all (\<lambda>p. items_im s' p = None \<and> nodes_im s' p = None \<and> keys2_im s' p = None)
                      [0..<fresh_im s']) (freeTable_im s)) im_demo = Some (Some True)"
  by code_simp

end
